theory Spec2Isabelle
  imports Complex_Main "HOL-Library.Multiset" "HOL-Library.Log_Nat"
begin

section \<open>Cards and the shoe\<close>

text \<open>
  The thirteen rank symbols of \<^verbatim>\<open>CARD_VALUES\<close>:
  \<^verbatim>\<open>'A'\<close> is \<open>Ace\<close>, \<^verbatim>\<open>'2'\<close> to \<^verbatim>\<open>'10'\<close> are \<open>R2\<close> to \<open>R10\<close>,
  \<^verbatim>\<open>'J'\<close>, \<^verbatim>\<open>'Q'\<close>, \<^verbatim>\<open>'K'\<close> are \<open>Jack\<close>, \<open>Queen\<close>, \<open>King\<close>.
  A hand is a list of ranks, as the card buttons of the component produce it.
\<close>

datatype rank = Ace | R2 | R3 | R4 | R5 | R6 | R7 | R8 | R9 | R10 | Jack | Queen | King

definition CARD_VALUES :: "rank list" where
  "CARD_VALUES = [Ace, R2, R3, R4, R5, R6, R7, R8, R9, R10, Jack, Queen, King]"

text \<open>
  The shoe is the object \<^verbatim>\<open>deck\<close> with one count per rank. The counts start at 24,
  are decremented only when positive and are otherwise incremented, so a count is a
  natural number.
\<close>

type_synonym shoe = "rank \<Rightarrow> nat"

definition initializeDeck :: shoe where
  "initializeDeck = foldl (\<lambda>deck v. deck(v := 24)) (\<lambda>_. 0) CARD_VALUES"

text \<open>
  \<^verbatim>\<open>Object.values(deck)\<close> and \<^verbatim>\<open>Object.entries(deck)\<close> enumerate the integer-like
  keys \<^verbatim>\<open>'2'\<close> ... \<^verbatim>\<open>'10'\<close> in ascending order first and then the other keys in
  insertion order.
\<close>

definition deck_keys :: "rank list" where
  "deck_keys = [R2, R3, R4, R5, R6, R7, R8, R9, R10, Ace, Jack, Queen, King]"

section \<open>Numbers\<close>

text \<open>
  A finite JavaScript number is a rational. Every arithmetic operation of the source
  yields the exact result rounded to a representable number, and a decimal literal
  denotes the representable number nearest to it. The rounding is the parameter
  \<open>rnd\<close> of the engine functions below. Two roundings are used:
  \<open>exact\<close> does not round at all (arithmetic over the rationals), and
  \<open>binary64\<close> rounds to the nearest number with a 53-bit significand, ties to the
  even significand, as IEEE 754 double precision does in its normal range. The range of
  the exponent is not bounded, so overflow to an infinity and gradual underflow are not
  part of \<open>binary64\<close>; the signed zero is one zero.
\<close>

definition exact :: "rat \<Rightarrow> rat" where
  "exact x = x"

definition round_half_even :: "rat \<Rightarrow> int" where
  "round_half_even z =
     (let f = \<lfloor>z\<rfloor>; r = z - of_int f
      in if r < 1/2 then f else if 1/2 < r then f + 1 else if even f then f else f + 1)"

text \<open>For \<open>0 < x\<close>, \<open>expo x\<close> is the exponent \<open>e\<close> with \<open>2\<^sup>e \<le> x < 2\<^sup>e\<^sup>+\<^sup>1\<close>.\<close>

definition expo :: "rat \<Rightarrow> int" where
  "expo x =
     (let p = fst (quotient_of x); q = snd (quotient_of x); k = bitlen p - bitlen q
      in if 2 powi k \<le> x then k else k - 1)"

definition binary64 :: "rat \<Rightarrow> rat" where
  "binary64 x =
     (if x = 0 then 0
      else (let a = \<bar>x\<bar>; u = 2 powi (expo a - 52)
            in sgn x * of_int (round_half_even (a / u)) * u))"

text \<open>
  The non-finite numbers appear where the source writes \<^verbatim>\<open>-Infinity\<close> and where it
  divides by a number that may be zero.
\<close>

datatype jsnum = Fin rat | PosInfinity | NegInfinity | NaN

definition inf_of_sign :: "rat \<Rightarrow> jsnum" where
  "inf_of_sign s = (if s = 0 then NaN else if 0 < s then PosInfinity else NegInfinity)"

fun sign_of :: "jsnum \<Rightarrow> rat" where
  "sign_of (Fin x) = sgn x"
| "sign_of PosInfinity = 1"
| "sign_of NegInfinity = - 1"
| "sign_of NaN = 0"

fun js_mul :: "(rat \<Rightarrow> rat) \<Rightarrow> jsnum \<Rightarrow> jsnum \<Rightarrow> jsnum" where
  "js_mul rnd NaN b = NaN"
| "js_mul rnd a NaN = NaN"
| "js_mul rnd (Fin x) (Fin y) = Fin (rnd (x * y))"
| "js_mul rnd a b = inf_of_sign (sign_of a * sign_of b)"

fun js_div :: "(rat \<Rightarrow> rat) \<Rightarrow> jsnum \<Rightarrow> jsnum \<Rightarrow> jsnum" where
  "js_div rnd NaN b = NaN"
| "js_div rnd a NaN = NaN"
| "js_div rnd (Fin x) (Fin y) = (if y = 0 then inf_of_sign (sgn x) else Fin (rnd (x / y)))"
| "js_div rnd (Fin x) b = Fin 0"
| "js_div rnd a (Fin y) = inf_of_sign (sign_of a * (if y < 0 then - 1 else 1))"
| "js_div rnd a b = NaN"

fun js_sub :: "(rat \<Rightarrow> rat) \<Rightarrow> jsnum \<Rightarrow> jsnum \<Rightarrow> jsnum" where
  "js_sub rnd NaN b = NaN"
| "js_sub rnd a NaN = NaN"
| "js_sub rnd (Fin x) (Fin y) = Fin (rnd (x - y))"
| "js_sub rnd (Fin x) PosInfinity = NegInfinity"
| "js_sub rnd (Fin x) NegInfinity = PosInfinity"
| "js_sub rnd PosInfinity PosInfinity = NaN"
| "js_sub rnd PosInfinity b = PosInfinity"
| "js_sub rnd NegInfinity NegInfinity = NaN"
| "js_sub rnd NegInfinity b = NegInfinity"

fun js_floor :: "jsnum \<Rightarrow> jsnum" where
  "js_floor (Fin x) = Fin (of_int \<lfloor>x\<rfloor>)"
| "js_floor a = a"

fun js_min :: "jsnum \<Rightarrow> jsnum \<Rightarrow> jsnum" where
  "js_min NaN b = NaN"
| "js_min a NaN = NaN"
| "js_min NegInfinity b = NegInfinity"
| "js_min a NegInfinity = NegInfinity"
| "js_min PosInfinity b = b"
| "js_min a PosInfinity = a"
| "js_min (Fin x) (Fin y) = Fin (min x y)"

fun js_max :: "jsnum \<Rightarrow> jsnum \<Rightarrow> jsnum" where
  "js_max NaN b = NaN"
| "js_max a NaN = NaN"
| "js_max PosInfinity b = PosInfinity"
| "js_max a PosInfinity = PosInfinity"
| "js_max NegInfinity b = b"
| "js_max a NegInfinity = a"
| "js_max (Fin x) (Fin y) = Fin (max x y)"

text \<open>The test \<^verbatim>\<open>x > 0\<close>; it is false for \<^verbatim>\<open>NaN\<close>.\<close>

fun js_positive :: "jsnum \<Rightarrow> bool" where
  "js_positive (Fin x) = (0 < x)"
| "js_positive PosInfinity = True"
| "js_positive a = False"

section \<open>Hand evaluation\<close>

text \<open>\<^verbatim>\<open>parseInt\<close> is applied to the rank symbols \<^verbatim>\<open>'2'\<close> ... \<^verbatim>\<open>'10'\<close> only.\<close>

definition getCardValue :: "rank \<Rightarrow> bool \<Rightarrow> int" where
  "getCardValue c isAce11 =
     (if c = Ace then (if isAce11 then 11 else 1)
      else if c \<in> set [Jack, Queen, King] then 10
      else (case c of R2 \<Rightarrow> 2 | R3 \<Rightarrow> 3 | R4 \<Rightarrow> 4 | R5 \<Rightarrow> 5 | R6 \<Rightarrow> 6
              | R7 \<Rightarrow> 7 | R8 \<Rightarrow> 8 | R9 \<Rightarrow> 9 | _ \<Rightarrow> 10))"

record hand =
  total :: int
  isSoft :: bool
  isBlackjack :: bool
  isBust :: bool

text \<open>The body of the \<^verbatim>\<open>for\<close> loop, on the pair of the running total and the aces.\<close>

definition count_card :: "int \<times> nat \<Rightarrow> rank \<Rightarrow> int \<times> nat" where
  "count_card acc c =
     (case acc of (tot, aces) \<Rightarrow>
        if c = Ace then (tot + 11, aces + 1)
        else (tot + getCardValue c True, aces))"

text \<open>The \<^verbatim>\<open>while\<close> loop that demotes aces.\<close>

fun adjust_aces :: "int \<Rightarrow> nat \<Rightarrow> int \<times> nat" where
  "adjust_aces tot aces =
     (if tot > 21 \<and> aces > 0 then adjust_aces (tot - 10) (aces - 1)
      else (tot, aces))"

definition evaluateHand :: "rank list \<Rightarrow> hand" where
  "evaluateHand cards =
     (case foldl count_card (0, 0) cards of (tot0, aces0) \<Rightarrow>
      case adjust_aces tot0 aces0 of (tot, aces) \<Rightarrow>
        \<lparr> total = tot,
          isSoft = (aces > 0 \<and> tot \<le> 21),
          isBlackjack = (length cards = 2 \<and> tot = 21),
          isBust = (tot > 21) \<rparr>)"

section \<open>Outcome estimation\<close>

definition totalRemaining :: "shoe \<Rightarrow> nat" where
  "totalRemaining deck = foldl (\<lambda>sum cnt. sum + cnt) 0 (map deck deck_keys)"

record estimate =
  winProb :: rat
  lossProb :: rat
  pushProb :: rat
  dealerBustProb :: rat

text \<open>The table \<^verbatim>\<open>dealerBustProbabilities\<close>, indexed by the value of the up-card.\<close>

definition dealerBustProbabilities :: "(rat \<Rightarrow> rat) \<Rightarrow> int \<Rightarrow> rat option" where
  "dealerBustProbabilities rnd =
     map_of [(2, rnd (35/100)), (3, rnd (37/100)), (4, rnd (40/100)), (5, rnd (42/100)),
             (6, rnd (42/100)), (7, rnd (26/100)), (8, rnd (24/100)), (9, rnd (23/100)),
             (10, rnd (23/100)), (11, rnd (17/100))]"

text \<open>
  \<^verbatim>\<open>dealerBustProbabilities[dealerCardValue] || 0.23\<close>: the default replaces a missing
  entry and an entry that is zero.
\<close>

definition dealerBustBase :: "(rat \<Rightarrow> rat) \<Rightarrow> int \<Rightarrow> rat" where
  "dealerBustBase rnd dealerCardValue =
     (case dealerBustProbabilities rnd dealerCardValue of
        None \<Rightarrow> rnd (23/100)
      | Some v \<Rightarrow> if v = 0 then rnd (23/100) else v)"

text \<open>The dealer bust probability after the adjustment by the shoe and the clamp.\<close>

definition adjustedDealerBust :: "(rat \<Rightarrow> rat) \<Rightarrow> rank \<Rightarrow> shoe \<Rightarrow> rat" where
  "adjustedDealerBust rnd dealerUpCard deck =
     (let remaining = totalRemaining deck;
          dealerCardValue = getCardValue dealerUpCard True;
          bust0 = dealerBustBase rnd dealerCardValue;
          lowCards = rnd (of_nat (deck R2 + deck R3 + deck R4 + deck R5 + deck R6)
                            / of_nat remaining);
          highCards = rnd (of_nat (deck R10 + deck Jack + deck Queen + deck King + deck Ace)
                            / of_nat remaining);
          bust1 = rnd (bust0 + rnd (rnd (lowCards - highCards) * rnd (1/10)))
      in max (rnd (1/10)) (min (rnd (6/10)) bust1))"

definition calculateProbabilities ::
    "(rat \<Rightarrow> rat) \<Rightarrow> rank list \<Rightarrow> rank \<Rightarrow> shoe \<Rightarrow> estimate" where
  "calculateProbabilities rnd playerCards dealerUpCard deck =
     (if totalRemaining deck = 0
      then \<lparr> winProb = 0, lossProb = 1, pushProb = 0, dealerBustProb = 0 \<rparr>
      else
       (let playerHand = evaluateHand playerCards;
            dealerCardValue = getCardValue dealerUpCard True;
            bust = adjustedDealerBust rnd dealerUpCard deck
        in if isBust playerHand
           then \<lparr> winProb = 0, lossProb = 1, pushProb = 0, dealerBustProb = bust \<rparr>
           else if isBlackjack playerHand
           then (let dealerBlackjackProb =
                        (if dealerUpCard = Ace then rnd (31/100)
                         else if dealerCardValue = 10 then rnd (8/100) else 0)
                 in \<lparr> winProb = rnd (1 - dealerBlackjackProb), lossProb = 0,
                      pushProb = dealerBlackjackProb, dealerBustProb = bust \<rparr>)
           else (let playerTotal = total playerHand;
                     win = (if playerTotal \<ge> 17
                            then rnd (bust + rnd (rnd (1 - bust) * rnd (4/10)))
                            else if playerTotal \<ge> 12
                            then rnd (bust + rnd (rnd (1 - bust) * rnd (2/10)))
                            else rnd (bust * rnd (5/10)));
                     push = rnd (1/10);
                     loss = rnd (rnd (1 - win) - push)
                 in \<lparr> winProb = win, lossProb = loss, pushProb = push,
                      dealerBustProb = bust \<rparr>)))"

section \<open>Strategy recommendation\<close>

datatype action = STAND | HIT | DOUBLE | SPLIT

text \<open>
  The errors. \<open>TypeError\<close> is what reading \<^verbatim>\<open>actions[0].action\<close> of an empty array
  would throw. \<open>InvalidBankrollError\<close> and \<open>DepletedRankError\<close> are the names of the
  specification; no statement of the source throws them.
\<close>

datatype error = TypeError | InvalidBankrollError | DepletedRankError

text \<open>\<^verbatim>\<open>winProb * 1 + lossProb * (-1) + pushProb * 0\<close>\<close>

definition standValue :: "(rat \<Rightarrow> rat) \<Rightarrow> estimate \<Rightarrow> rat" where
  "standValue rnd probs =
     rnd (rnd (rnd (winProb probs * 1) + rnd (lossProb probs * (- 1)))
          + rnd (pushProb probs * 0))"

text \<open>
  One iteration of the loop over \<^verbatim>\<open>Object.entries(deck)\<close>: \<open>acc\<close> is the value of
  \<^verbatim>\<open>hitEV\<close> before the iteration, the result its value after it.
\<close>

definition hitStep ::
    "(rat \<Rightarrow> rat) \<Rightarrow> rank list \<Rightarrow> rank \<Rightarrow> shoe \<Rightarrow> nat \<Rightarrow> rat \<Rightarrow> rat \<Rightarrow> rank \<Rightarrow> rat" where
  "hitStep rnd playerCards dealerUpCard deck remaining stand acc c =
     (let cnt = deck c
      in if cnt > 0
         then (let newCards = playerCards @ [c];
                   newHand = evaluateHand newCards;
                   cardProb = rnd (of_nat cnt / of_nat remaining)
               in if isBust newHand
                  then rnd (acc + rnd (cardProb * rnd (- 1 - stand)))
                  else (let newProbs = calculateProbabilities rnd newCards dealerUpCard
                                         (deck(c := cnt - 1));
                            newStandEV = standValue rnd newProbs
                        in rnd (acc + rnd (cardProb * rnd (newStandEV - stand)))))
         else acc)"

definition hitValue :: "(rat \<Rightarrow> rat) \<Rightarrow> rank list \<Rightarrow> rank \<Rightarrow> shoe \<Rightarrow> rat \<Rightarrow> rat" where
  "hitValue rnd playerCards dealerUpCard deck stand =
     (if total (evaluateHand playerCards) < 21
      then foldl (hitStep rnd playerCards dealerUpCard deck (totalRemaining deck) stand)
             stand deck_keys
      else stand)"

text \<open>
  \<^verbatim>\<open>actions.sort((a, b) => b.ev - a.ev)\<close>: the sort is stable, and \<open>a\<close> is placed
  behind \<open>b\<close> exactly when the comparison function returns a positive number.
\<close>

definition compareActions :: "(rat \<Rightarrow> rat) \<Rightarrow> action \<times> jsnum \<Rightarrow> action \<times> jsnum \<Rightarrow> jsnum" where
  "compareActions rnd a b = js_sub rnd (snd b) (snd a)"

fun insertAction ::
    "(rat \<Rightarrow> rat) \<Rightarrow> action \<times> jsnum \<Rightarrow> (action \<times> jsnum) list \<Rightarrow> (action \<times> jsnum) list" where
  "insertAction rnd a [] = [a]"
| "insertAction rnd a (b # bs) =
     (if js_positive (compareActions rnd a b) then b # insertAction rnd a bs
      else a # b # bs)"

definition sortActions :: "(rat \<Rightarrow> rat) \<Rightarrow> (action \<times> jsnum) list \<Rightarrow> (action \<times> jsnum) list" where
  "sortActions rnd actions = foldr (insertAction rnd) actions []"

text \<open>
  \<open>expectedValues\<close> is the object built by \<^verbatim>\<open>reduce\<close>, as the list of its entries in
  insertion order.
\<close>

record recommendation =
  recommendedAction :: action
  expectedValues :: "(action \<times> jsnum) list"
  standEV :: rat
  hitEV :: rat

definition getStrategyRecommendation ::
    "(rat \<Rightarrow> rat) \<Rightarrow> rank list \<Rightarrow> rank \<Rightarrow> shoe \<Rightarrow> bool \<Rightarrow> bool \<Rightarrow> error + recommendation" where
  "getStrategyRecommendation rnd playerCards dealerUpCard deck canDouble canSplit =
     (let probs = calculateProbabilities rnd playerCards dealerUpCard deck;
          stand = standValue rnd probs;
          hit = hitValue rnd playerCards dealerUpCard deck stand;
          doubleEV = (if canDouble then Fin (rnd (hit * 2)) else NegInfinity);
          splitEV = (if canSplit then Fin (rnd (stand * rnd (9/10))) else NegInfinity);
          actions = sortActions rnd
                      (filter (\<lambda>a. snd a \<noteq> NegInfinity)
                         [(STAND, Fin stand), (HIT, Fin hit), (DOUBLE, doubleEV), (SPLIT, splitEV)])
      in case actions of
           [] \<Rightarrow> Inl TypeError
         | a # _ \<Rightarrow> Inr \<lparr> recommendedAction = fst a, expectedValues = actions,
                          standEV = stand, hitEV = hit \<rparr>)"

section \<open>Bet sizing\<close>

record bet =
  kellyFraction :: jsnum
  recommendedBet :: jsnum
  betPercentage :: jsnum

text \<open>The argument \<open>payout\<close> is \<open>None\<close> when the caller omits it; its default is 1.\<close>

definition calculateOptimalBetForNextRound ::
    "(rat \<Rightarrow> rat) \<Rightarrow> jsnum \<Rightarrow> jsnum \<Rightarrow> jsnum \<Rightarrow> jsnum option \<Rightarrow> error + bet" where
  "calculateOptimalBetForNextRound rnd bankroll p q payout =
     (let b = (case payout of None \<Rightarrow> Fin 1 | Some v \<Rightarrow> v);
          kelly = js_div rnd (js_sub rnd (js_mul rnd b p) q) b;
          fractionalKelly = js_mul rnd kelly (Fin (rnd (5/10)));
          betSize = js_max (Fin 1)
                      (js_min (Fin 500) (js_floor (js_mul rnd fractionalKelly bankroll)))
      in Inr \<lparr> kellyFraction = kelly, recommendedBet = betSize,
               betPercentage = js_mul rnd (js_div rnd betSize bankroll) (Fin 100) \<rparr>)"

section \<open>The state of the component\<close>

record state =
  deck :: shoe
  playerCards :: "rank list"
  dealerUpCard :: "rank option"
  dealerDownCard :: "rank option"

text \<open>
  The targets \<^verbatim>\<open>'player'\<close>, \<^verbatim>\<open>'dealer-up'\<close> and \<^verbatim>\<open>'dealer-down'\<close>; any other
  string is \<open>OtherTarget\<close>.
\<close>

datatype target = Player | DealerUp | DealerDown | OtherTarget

definition addCard :: "state \<Rightarrow> rank \<Rightarrow> target \<Rightarrow> error + state" where
  "addCard s c tgt =
     (if deck s c \<le> 0 then Inr s
      else (let newDeck = (deck s)(c := deck s c - 1);
                s1 = s\<lparr> deck := newDeck \<rparr>
            in if tgt = Player then Inr (s1\<lparr> playerCards := playerCards s @ [c] \<rparr>)
               else if tgt = DealerUp then Inr (s1\<lparr> dealerUpCard := Some c \<rparr>)
               else if tgt = DealerDown then Inr (s1\<lparr> dealerDownCard := Some c \<rparr>)
               else Inr s1))"

section \<open>Concrete inputs\<close>

text \<open>The shoe after every card has been drawn.\<close>

definition emptyDeck :: shoe where
  "emptyDeck = (\<lambda>_. 0)"

text \<open>The state at the start of a session, and a state whose shoe holds no ace.\<close>

definition fresh_state :: state where
  "fresh_state = \<lparr> deck = initializeDeck, playerCards = [], dealerUpCard = None,
     dealerDownCard = None \<rparr>"

definition depleted_state :: state where
  "depleted_state = \<lparr> deck = initializeDeck(Ace := 0), playerCards = [R5],
     dealerUpCard = Some King, dealerDownCard = None \<rparr>"

section \<open>Theorems\<close>

subsection \<open>Rounding to double precision\<close>

text \<open>
  \<open>expo\<close> is the binary exponent, \<open>round_half_even\<close> is within one half of its
  argument and monotone, and so \<open>binary64\<close> is monotone, odd and keeps the sign.
\<close>

lemma powi_pos: "0 < (2::rat) powi e"
  by (simp add: power_int_def)

lemma powi_add1: "(2::rat) powi (e + 1) = 2 * 2 powi e"
  by (simp add: power_int_add)

lemma powi_mono: "a \<le> b \<Longrightarrow> (2::rat) powi a \<le> 2 powi b"
  by (rule power_int_increasing) simp_all

lemma powi_strict_mono: "a < b \<Longrightarrow> (2::rat) powi a < 2 powi b"
  by (rule power_int_strict_increasing) simp_all

lemma bitlen_bounds_rat:
  assumes "0 < p"
  shows "(2::rat) powi (bitlen p - 1) \<le> of_int p" and "of_int p < (2::rat) powi (bitlen p)"
proof -
  have "bitlen p = bitlen (p div 2) + 1"
    using assms by (subst compute_bitlen) simp
  then have b: "1 \<le> bitlen p"
    using bitlen_nonneg [of "p div 2"] by linarith
  have "(2::int) ^ nat (bitlen p - 1) \<le> p" and "p < 2 ^ nat (bitlen p)"
    using bitlen_bounds [OF assms] by simp_all
  then have "(of_int ((2::int) ^ nat (bitlen p - 1)) :: rat) \<le> of_int p"
    and "(of_int p :: rat) < of_int (2 ^ nat (bitlen p))"
    by (simp_all only: of_int_le_iff of_int_less_iff)
  then show "(2::rat) powi (bitlen p - 1) \<le> of_int p" and "of_int p < (2::rat) powi (bitlen p)"
    using b by (simp_all add: power_int_def)
qed

lemma expo_bounds:
  assumes "0 < x"
  shows "2 powi (expo x) \<le> x" and "x < 2 powi (expo x + 1)"
proof -
  obtain p q where pq: "quotient_of x = (p, q)"
    by (cases "quotient_of x")
  have q: "0 < q"
    using pq by (rule quotient_of_denom_pos)
  have x: "x = of_int p / of_int q"
    using pq by (rule quotient_of_div)
  have p: "0 < p"
    using assms q unfolding x by (simp add: zero_less_divide_iff)
  define k where "k = bitlen p - bitlen q"
  have e: "expo x = (if 2 powi k \<le> x then k else k - 1)"
    by (simp add: expo_def pq k_def Let_def)
  have qr: "(0::rat) < of_int q"
    using q by simp
  have lo: "2 powi (k - 1) \<le> x"
  proof -
    have "(2::rat) powi (k - 1) * of_int q \<le> 2 powi (k - 1) * 2 powi (bitlen q)"
      using bitlen_bounds_rat(2) [OF q] powi_pos [of "k - 1"] by (simp add: less_imp_le)
    also have "\<dots> = 2 powi (bitlen p - 1)"
      by (simp add: k_def power_int_add [symmetric])
    also have "\<dots> \<le> of_int p"
      by (rule bitlen_bounds_rat(1) [OF p])
    finally show ?thesis
      unfolding x using qr by (simp add: pos_le_divide_eq)
  qed
  have hi: "x < 2 powi (k + 1)"
  proof -
    have "(of_int p :: rat) < 2 powi (bitlen p)"
      by (rule bitlen_bounds_rat(2) [OF p])
    also have "\<dots> = 2 powi (k + 1) * 2 powi (bitlen q - 1)"
      by (simp add: k_def power_int_add [symmetric])
    also have "\<dots> \<le> 2 powi (k + 1) * of_int q"
      using bitlen_bounds_rat(1) [OF q] powi_pos [of "k + 1"] by simp
    finally show ?thesis
      unfolding x using qr by (simp add: pos_divide_less_eq)
  qed
  show "2 powi (expo x) \<le> x"
    using lo by (simp add: e)
  show "x < 2 powi (expo x + 1)"
    using hi by (auto simp add: e not_le)
qed

lemma expo_unique:
  assumes "0 < x" "2 powi e \<le> x" "x < 2 powi (e + 1)"
  shows "expo x = e"
proof (rule ccontr)
  assume n: "expo x \<noteq> e"
  show False
  proof (cases "expo x < e")
    case True
    then have "(2::rat) powi (expo x + 1) \<le> 2 powi e"
      by (intro powi_mono) simp
    with expo_bounds(2) [OF assms(1)] assms(2) show False
      by simp
  next
    case False
    with n have "e + 1 \<le> expo x"
      by simp
    then have "(2::rat) powi (e + 1) \<le> 2 powi (expo x)"
      by (rule powi_mono)
    with expo_bounds(1) [OF assms(1)] assms(3) show False
      by simp
  qed
qed


lemma round_half_even_int: "round_half_even (of_int n) = n"
  by (simp add: round_half_even_def)

lemma round_half_even_error:
  "\<bar>of_int (round_half_even z) - z\<bar> \<le> 1/2"
proof -
  have "of_int \<lfloor>z\<rfloor> \<le> z" "z < of_int \<lfloor>z\<rfloor> + 1"
    by linarith+
  then show ?thesis
    by (auto simp: round_half_even_def Let_def)
qed

lemma round_half_even_mono:
  assumes "z \<le> z'"
  shows "round_half_even z \<le> round_half_even z'"
proof (cases "\<lfloor>z\<rfloor> = \<lfloor>z'\<rfloor>")
  case True
  then show ?thesis
    using assms by (auto simp: round_half_even_def Let_def)
next
  case False
  then have "\<lfloor>z\<rfloor> + 1 \<le> \<lfloor>z'\<rfloor>"
    using assms floor_mono [OF assms] by linarith
  moreover have "round_half_even z \<le> \<lfloor>z\<rfloor> + 1"
    by (auto simp: round_half_even_def Let_def)
  moreover have "\<lfloor>z'\<rfloor> \<le> round_half_even z'"
    by (auto simp: round_half_even_def Let_def)
  ultimately show ?thesis
    by linarith
qed

lemma binary64_pos:
  assumes "0 < x"
  shows "binary64 x = of_int (round_half_even (x / 2 powi (expo x - 52))) * 2 powi (expo x - 52)"
  using assms by (simp add: binary64_def Let_def)

lemma scaled_bounds:
  assumes "0 < x"
  shows "2 ^ 52 \<le> x / 2 powi (expo x - 52)" and "x / 2 powi (expo x - 52) < 2 ^ 53"
proof -
  have u: "(2::rat) powi (expo x - 52) = 2 powi (expo x) / 2 ^ 52"
    by (simp add: power_int_diff)
  have v: "(2::rat) powi (expo x + 1) = 2 * 2 powi (expo x)"
    by (rule powi_add1)
  have p: "(0::rat) < 2 powi (expo x)"
    by (rule powi_pos)
  show "2 ^ 52 \<le> x / 2 powi (expo x - 52)"
    unfolding u using expo_bounds(1) [OF assms] p by (simp add: pos_le_divide_eq)
  show "x / 2 powi (expo x - 52) < 2 ^ 53"
    unfolding u using expo_bounds(2) [OF assms] p unfolding v by (simp add: pos_divide_less_eq)
qed

lemma significand_bounds:
  assumes "0 < x"
  shows "2 ^ 52 \<le> round_half_even (x / 2 powi (expo x - 52))"
    and "round_half_even (x / 2 powi (expo x - 52)) \<le> 2 ^ 53"
proof -
  have "round_half_even (of_int (2 ^ 52)) \<le> round_half_even (x / 2 powi (expo x - 52))"
    by (rule round_half_even_mono) (use scaled_bounds(1) [OF assms] in simp)
  then show "2 ^ 52 \<le> round_half_even (x / 2 powi (expo x - 52))"
    unfolding round_half_even_int .
  have "round_half_even (x / 2 powi (expo x - 52)) \<le> round_half_even (of_int (2 ^ 53))"
    by (rule round_half_even_mono) (use scaled_bounds(2) [OF assms] in simp)
  then show "round_half_even (x / 2 powi (expo x - 52)) \<le> 2 ^ 53"
    unfolding round_half_even_int .
qed

lemma binary64_binade:
  assumes "0 < x"
  shows "2 powi (expo x) \<le> binary64 x" and "binary64 x \<le> 2 powi (expo x + 1)"
proof -
  let ?u = "(2::rat) powi (expo x - 52)"
  let ?m = "round_half_even (x / ?u)"
  have u: "0 < ?u" by (rule powi_pos)
  have a: "(2::rat) powi (expo x) = 2 ^ 52 * ?u"
    by (simp add: power_int_diff)
  have b: "(2::rat) powi (expo x + 1) = 2 ^ 53 * ?u"
    by (simp add: power_int_diff powi_add1)
  have "(2::rat) ^ 52 \<le> of_int ?m"
    using significand_bounds(1) [OF assms] by (metis of_int_le_iff of_int_numeral of_int_power)
  then show "2 powi (expo x) \<le> binary64 x"
    unfolding binary64_pos [OF assms] a using u by (simp only: mult_le_cancel_right_pos)
  have "of_int ?m \<le> (2::rat) ^ 53"
    using significand_bounds(2) [OF assms] by (metis of_int_le_iff of_int_numeral of_int_power)
  then show "binary64 x \<le> 2 powi (expo x + 1)"
    unfolding binary64_pos [OF assms] b using u by (simp only: mult_le_cancel_right_pos)
qed

lemma binary64_positive: "0 < x \<Longrightarrow> 0 < binary64 x"
  using binary64_binade(1) [of x] powi_pos [of "expo x"] by linarith

lemma binary64_mono_pos:
  assumes "0 < x" "x \<le> y"
  shows "binary64 x \<le> binary64 y"
proof -
  have y: "0 < y" using assms by simp
  have le: "expo x \<le> expo y"
  proof (rule ccontr)
    assume "\<not> expo x \<le> expo y"
    then have "expo y + 1 \<le> expo x" by simp
    then have "(2::rat) powi (expo y + 1) \<le> 2 powi (expo x)" by (rule powi_mono)
    with expo_bounds(2) [OF y] expo_bounds(1) [OF assms(1)] assms(2) show False by simp
  qed
  show ?thesis
  proof (cases "expo x = expo y")
    case True
    let ?u = "(2::rat) powi (expo y - 52)"
    have u: "0 < ?u" by (rule powi_pos)
    have "x / ?u \<le> y / ?u"
      using assms(2) u by (simp add: divide_right_mono)
    then have "round_half_even (x / ?u) \<le> round_half_even (y / ?u)"
      by (rule round_half_even_mono)
    then have "(of_int (round_half_even (x / ?u)) :: rat) \<le> of_int (round_half_even (y / ?u))"
      by simp
    then show ?thesis
      unfolding binary64_pos [OF assms(1)] binary64_pos [OF y] True
      using u by (simp only: mult_le_cancel_right_pos)
  next
    case False
    with le have "expo x + 1 \<le> expo y" by simp
    then have "(2::rat) powi (expo x + 1) \<le> 2 powi (expo y)" by (rule powi_mono)
    with binary64_binade(2) [OF assms(1)] binary64_binade(1) [OF y] show ?thesis by linarith
  qed
qed

lemma binary64_zero: "binary64 0 = 0"
  by (simp add: binary64_def)

lemma binary64_minus: "binary64 (- x) = - binary64 x"
  by (simp add: binary64_def Let_def)

lemma binary64_mono:
  assumes "x \<le> y"
  shows "binary64 x \<le> binary64 y"
proof -
  consider "0 < x" | "x \<le> 0" "0 < y" | "x < 0" "y = 0" | "x = 0" "y = 0" | "x \<le> y" "y < 0"
    using assms by fastforce
  then show ?thesis
  proof cases
    case 1
    then show ?thesis using assms by (rule binary64_mono_pos)
  next
    case 2
    have "binary64 x \<le> 0"
    proof (cases "x = 0")
      case True then show ?thesis by (simp add: binary64_zero)
    next
      case False
      with 2 have "0 < - x" by simp
      then have "0 < binary64 (- x)" by (rule binary64_positive)
      then show ?thesis by (simp add: binary64_minus)
    qed
    with binary64_positive [OF 2(2)] show ?thesis by linarith
  next
    case 3
    then have "0 < - x" by simp
    then have "0 < binary64 (- x)" by (rule binary64_positive)
    then show ?thesis using 3 by (simp add: binary64_minus binary64_zero)
  next
    case 4
    then show ?thesis by simp
  next
    case 5
    then have "0 < - y" "- y \<le> - x" by simp_all
    then have "binary64 (- y) \<le> binary64 (- x)" by (rule binary64_mono_pos)
    then show ?thesis by (simp add: binary64_minus)
  qed
qed

lemma binary64_sign: "(0 < binary64 x) = (0 < x)"
proof
  assume "0 < x" then show "0 < binary64 x" by (rule binary64_positive)
next
  assume p: "0 < binary64 x"
  show "0 < x"
  proof (rule ccontr)
    assume "\<not> 0 < x"
    then have "x \<le> 0" by simp
    then have "binary64 x \<le> binary64 0" by (rule binary64_mono)
    with p show False by (simp add: binary64_zero)
  qed
qed

lemma binary64_eval:
  assumes "0 < x" "2 ^ 52 * 2 powi e \<le> x" "x < 2 ^ 53 * 2 powi e"
  shows "binary64 x = of_int (round_half_even (x / 2 powi e)) * 2 powi e"
proof -
  have a: "(2::rat) powi (e + 52) = 2 ^ 52 * 2 powi e"
    by (simp add: power_int_add)
  have b: "(2::rat) powi (e + 52 + 1) = 2 ^ 53 * 2 powi e"
    by (simp add: power_int_add)
  have "expo x = e + 52"
    by (rule expo_unique [OF assms(1)]) (use assms a b in simp_all)
  then show ?thesis
    by (simp add: binary64_pos [OF assms(1)])
qed

lemma binary64_error_pos:
  assumes "0 < x"
  shows "\<bar>binary64 x - x\<bar> \<le> x / 2 ^ 53"
proof -
  let ?u = "(2::rat) powi (expo x - 52)"
  let ?m = "round_half_even (x / ?u)"
  have u: "0 < ?u" by (rule powi_pos)
  have "binary64 x - x = (of_int ?m - x / ?u) * ?u"
    unfolding binary64_pos [OF assms] using u by (simp add: algebra_simps)
  then have "\<bar>binary64 x - x\<bar> = \<bar>of_int ?m - x / ?u\<bar> * ?u"
    using u by (simp add: abs_mult)
  also have "\<dots> \<le> 1/2 * ?u"
    using round_half_even_error [of "x / ?u"] u by (simp only: mult_le_cancel_right_pos)
  also have "\<dots> = 2 powi (expo x) / 2 ^ 53"
    by (simp add: power_int_diff)
  also have "\<dots> \<le> x / 2 ^ 53"
    using expo_bounds(1) [OF assms] by (simp add: divide_right_mono)
  finally show ?thesis .
qed

lemma binary64_error: "\<bar>binary64 x - x\<bar> \<le> \<bar>x\<bar> / 2 ^ 53"
proof -
  consider "0 < x" | "x = 0" | "x < 0" by linarith
  then show ?thesis
  proof cases
    case 1
    then show ?thesis using binary64_error_pos [of x] by simp
  next
    case 2
    then show ?thesis by (simp add: binary64_zero)
  next
    case 3
    then have "0 < - x" by simp
    from binary64_error_pos [OF this] have "\<bar>- binary64 x + x\<bar> \<le> - x / 2 ^ 53"
      by (simp add: binary64_minus)
    moreover have "\<bar>- binary64 x + x\<bar> = \<bar>binary64 x - x\<bar>"
      by linarith
    ultimately show ?thesis using 3 by simp
  qed
qed

text \<open>
  The value of \<open>binary64\<close> at a number that lies in the binade of exponent \<open>e + 52\<close>
  and nearer to \<open>n * 2\<^sup>e\<close> than to its neighbours.
\<close>

lemma round_half_even_near:
  assumes "of_int n - 1/2 < z" "z < of_int n + 1/2"
  shows "round_half_even z = n"
proof -
  have "\<bar>of_int (round_half_even z) - z\<bar> \<le> 1/2"
    by (rule round_half_even_error)
  with assms have "\<bar>(of_int (round_half_even z) :: rat) - of_int n\<bar> < 1"
    by linarith
  then have "\<bar>round_half_even z - n\<bar> < 1"
    by (metis of_int_diff of_int_abs of_int_less_1_iff)
  then show ?thesis
    by linarith
qed

lemma binary64_near:
  assumes "0 < x" "2 ^ 52 * 2 powi e \<le> x" "x < 2 ^ 53 * 2 powi e"
    and "(of_int n - 1/2) * 2 powi e < x" "x < (of_int n + 1/2) * 2 powi e"
  shows "binary64 x = of_int n * 2 powi e"
proof -
  have u: "(0::rat) < 2 powi e"
    by (rule powi_pos)
  have "round_half_even (x / 2 powi e) = n"
    by (rule round_half_even_near) (use assms(4,5) u in \<open>simp_all add: pos_less_divide_eq pos_divide_less_eq\<close>)
  then show ?thesis
    using binary64_eval [OF assms(1,2,3)] by simp
qed

lemma round_half_even_tie:
  "round_half_even (of_int n + 1/2) = (if even n then n else n + 1)"
proof -
  have "\<lfloor>(of_int n :: rat) + 1/2\<rfloor> = n"
    by linarith
  then show ?thesis
    by (simp add: round_half_even_def)
qed

lemma binary64_tie:
  assumes "0 < x" "2 ^ 52 * 2 powi e \<le> x" "x < 2 ^ 53 * 2 powi e"
    and "x = (of_int n + 1/2) * 2 powi e"
  shows "binary64 x = of_int (if even n then n else n + 1) * 2 powi e"
proof -
  have u: "(0::rat) < 2 powi e"
    by (rule powi_pos)
  have "x / 2 powi e = of_int n + 1/2"
    unfolding assms(4) using u by simp
  then have "round_half_even (x / 2 powi e) = (if even n then n else n + 1)"
    by (simp only: round_half_even_tie)
  then show ?thesis
    using binary64_eval [OF assms(1,2,3)] by simp
qed

lemma binary64_one: "binary64 1 = 1"
proof -
  have "binary64 1 = of_int 4503599627370496 * 2 powi (- 52)"
    by (rule binary64_near) (simp_all add: power_int_minus)
  then show ?thesis
    by (simp add: power_int_minus)
qed

subsection \<open>Hand evaluation\<close>

lemma evaluateHand_empty:
  "evaluateHand [] = \<lparr> total = 0, isSoft = False, isBlackjack = False, isBust = False \<rparr>"
  by (simp add: evaluateHand_def)

text \<open>The \<^verbatim>\<open>for\<close> loop adds up the card values with every ace as 11 and counts the aces.\<close>

lemma foldl_count_card:
  "foldl count_card (t, a) cards =
     (t + (\<Sum>c\<leftarrow>cards. getCardValue c True), a + count_list cards Ace)"
  by (induction cards arbitrary: t a) (auto simp: count_card_def getCardValue_def)

lemma adjust_aces_closed:
  "adjust_aces t n =
     (let k = (if t \<le> 21 then 0 else min n (nat ((t - 12) div 10)))
      in (t - 10 * int k, n - k))"
proof (induction t n rule: adjust_aces.induct)
  case (1 tot aces)
  show ?case
  proof (cases "tot > 21 \<and> aces > 0")
    case True
    define m where "m = (tot - 22) div 10"
    have "(tot - 12) div 10 = ((tot - 22) + 10) div 10"
      by simp
    also have "\<dots> = (tot - 22) div 10 + 1"
      by (rule div_add_self2) simp
    finally have d: "(tot - 12) div 10 = m + 1"
      unfolding m_def .
    have m0: "0 \<le> m"
      unfolding m_def using True by presburger
    have step: "adjust_aces tot aces = adjust_aces (tot - 10) (aces - 1)"
      using True by simp
    have ih: "adjust_aces (tot - 10) (aces - 1) =
        (let k = (if tot - 10 \<le> 21 then 0 else min (aces - 1) (nat m))
         in (tot - 10 - 10 * int k, aces - 1 - k))"
      using 1 True unfolding m_def by simp
    show ?thesis
    proof (cases "tot - 10 \<le> 21")
      case small: True
      then have "m = 0"
        unfolding m_def using True by presburger
      then show ?thesis
        unfolding step ih d using small True by (simp add: Let_def min_def)
    next
      case big: False
      have k: "min aces (nat (m + 1)) = Suc (min (aces - 1) (nat m))"
        using True m0 by (simp add: min_def nat_add_distrib) arith
      show ?thesis
        unfolding step ih d using big True by (simp add: Let_def k del: adjust_aces.simps)
    qed
  next
    case False
    then show ?thesis by (auto simp: Let_def)
  qed
qed

text \<open>
  The hand in closed form: \<open>raw\<close> is the total with every ace as 11, \<open>n\<close> the number of
  aces and \<open>k\<close> the number of aces that the loop demotes, which is the least number with
  \<open>raw - 10 * k \<le> 21\<close>, capped by \<open>n\<close>.
\<close>

lemma evaluateHand_closed:
  "evaluateHand cards =
     (let raw = (\<Sum>c\<leftarrow>cards. getCardValue c True); n = count_list cards Ace;
          k = (if raw \<le> 21 then 0 else min n (nat ((raw - 12) div 10)));
          tot = raw - 10 * int k
      in \<lparr> total = tot, isSoft = (k < n \<and> tot \<le> 21),
           isBlackjack = (length cards = 2 \<and> tot = 21), isBust = (tot > 21) \<rparr>)"
  unfolding evaluateHand_def foldl_count_card adjust_aces_closed
  by (simp add: Let_def)

lemma evaluateHand_mset:
  assumes "mset xs = mset ys"
  shows "evaluateHand xs = evaluateHand ys"
proof -
  have s: "(\<Sum>c\<leftarrow>xs. getCardValue c True) = (\<Sum>c\<leftarrow>ys. getCardValue c True)"
    using assms by (metis mset_map sum_mset_sum_list)
  have c: "count_list xs Ace = count_list ys Ace"
    using assms by (metis count_mset)
  have l: "length xs = length ys"
    using assms by (metis size_mset)
  show ?thesis
    unfolding evaluateHand_closed s c l ..
qed

lemma demotions_least:
  fixes raw :: int and n :: nat
  defines "k \<equiv> (if raw \<le> 21 then 0 else min n (nat ((raw - 12) div 10)))"
  shows "k \<le> n \<and> (raw - 10 * int k \<le> 21 \<or> k = n) \<and> (k = 0 \<or> 21 < raw - 10 * int k + 10)"
proof (cases "raw \<le> 21")
  case True
  then show ?thesis
    by (simp add: k_def)
next
  case False
  define m where "m = (raw - 12) div 10"
  have m: "10 * m \<le> raw - 12" "raw - 12 < 10 * m + 10"
    unfolding m_def by (simp_all add: algebra_simps)
  have m1: "1 \<le> m"
    using m(2) False by linarith
  have k: "k = min n (nat m)"
    using False by (simp add: k_def m_def)
  show ?thesis
  proof (cases "nat m \<le> n")
    case True
    then have "k = nat m"
      by (simp add: k)
    then have "int k = m"
      using m1 by simp
    then show ?thesis
      using m True \<open>k = nat m\<close> by (intro conjI) (simp, linarith, linarith)
  next
    case nle: False
    then have kn: "k = n"
      by (simp add: k)
    have "int n < m"
      using nle by linarith
    then show ?thesis
      using m kn by (intro conjI) (simp, simp, linarith)
  qed
qed

text \<open>
  C8. \<^verbatim>\<open>evaluateHand\<close> counts each ace as 11 and then subtracts 10 per demoted ace, as
  long as the total exceeds 21 and an ace counted as 11 remains: the total is the raw total
  minus ten times the number \<open>k\<close> of demoted aces; \<open>k\<close> is at most the number of aces,
  the loop stops with a total of at most 21 or with every ace demoted, and before the last
  demotion the total still exceeded 21. The empty hand has total 0 and is neither bust nor
  a blackjack. A,A is a soft 12; 10,K is 20 and no blackjack; A,K is a blackjack 21; K,Q,5
  is a hard bust 25.
\<close>

theorem evaluateHand_demotes_aces:
  "evaluateHand cards =
     (let raw = (\<Sum>c\<leftarrow>cards. getCardValue c True); n = count_list cards Ace;
          k = (if raw \<le> 21 then 0 else min n (nat ((raw - 12) div 10)));
          tot = raw - 10 * int k
      in \<lparr> total = tot, isSoft = (k < n \<and> tot \<le> 21),
           isBlackjack = (length cards = 2 \<and> tot = 21), isBust = (tot > 21) \<rparr>)
   \<and> (let raw = (\<Sum>c\<leftarrow>cards. getCardValue c True); n = count_list cards Ace;
          k = (if raw \<le> 21 then 0 else min n (nat ((raw - 12) div 10)))
      in k \<le> n \<and> (raw - 10 * int k \<le> 21 \<or> k = n) \<and> (k = 0 \<or> 21 < raw - 10 * int k + 10))
   \<and> evaluateHand [] =
       \<lparr> total = 0, isSoft = False, isBlackjack = False, isBust = False \<rparr>
   \<and> evaluateHand [Ace, Ace] =
       \<lparr> total = 12, isSoft = True, isBlackjack = False, isBust = False \<rparr>
   \<and> total (evaluateHand [R10, King]) = 20 \<and> \<not> isBlackjack (evaluateHand [R10, King])
   \<and> total (evaluateHand [Ace, King]) = 21 \<and> isBlackjack (evaluateHand [Ace, King])
   \<and> total (evaluateHand [King, Queen, R5]) = 25 \<and> isBust (evaluateHand [King, Queen, R5])
   \<and> \<not> isSoft (evaluateHand [King, Queen, R5])"
proof -
  have aa: "evaluateHand [Ace, Ace] =
      \<lparr> total = 12, isSoft = True, isBlackjack = False, isBust = False \<rparr>"
    by (simp add: evaluateHand_def count_card_def getCardValue_def)
  have tk: "evaluateHand [R10, King] =
      \<lparr> total = 20, isSoft = False, isBlackjack = False, isBust = False \<rparr>"
    by (simp add: evaluateHand_def count_card_def getCardValue_def)
  have ak: "evaluateHand [Ace, King] =
      \<lparr> total = 21, isSoft = True, isBlackjack = True, isBust = False \<rparr>"
    by (simp add: evaluateHand_def count_card_def getCardValue_def)
  have kq: "evaluateHand [King, Queen, R5] =
      \<lparr> total = 25, isSoft = False, isBlackjack = False, isBust = True \<rparr>"
    by (simp add: evaluateHand_def count_card_def getCardValue_def)
  have tk1: "total (evaluateHand [R10, King]) = 20"
    and tk2: "\<not> isBlackjack (evaluateHand [R10, King])"
    by (simp_all only: tk hand.simps simp_thms)
  have ak1: "total (evaluateHand [Ace, King]) = 21"
    and ak2: "isBlackjack (evaluateHand [Ace, King])"
    by (simp_all only: ak hand.simps simp_thms)
  have kq1: "total (evaluateHand [King, Queen, R5]) = 25"
    and kq2: "isBust (evaluateHand [King, Queen, R5])"
    and kq3: "\<not> isSoft (evaluateHand [King, Queen, R5])"
    by (simp_all only: kq hand.simps simp_thms)
  have least: "(let raw = (\<Sum>c\<leftarrow>cards. getCardValue c True); n = count_list cards Ace;
          k = (if raw \<le> 21 then 0 else min n (nat ((raw - 12) div 10)))
      in k \<le> n \<and> (raw - 10 * int k \<le> 21 \<or> k = n) \<and> (k = 0 \<or> 21 < raw - 10 * int k + 10))"
    unfolding Let_def by (rule demotions_least)
  show ?thesis
    by (intro conjI evaluateHand_closed evaluateHand_empty least aa tk1 tk2 ak1 ak2 kq1 kq2 kq3)
qed

text \<open>
  C9. The total of a hand depends only on the multiset of its cards: two card sequences
  that are permutations of each other have the same total.
\<close>

theorem evaluateHand_total_permutation:
  "mset xs = mset ys \<Longrightarrow> total (evaluateHand xs) = total (evaluateHand ys)"
  by (rule arg_cong [of _ _ total]) (rule evaluateHand_mset)

theorem evaluateHand_total_permutation_witness:
  "mset [Ace, King, R5, Ace] = mset [R5, Ace, Ace, King]
   \<and> total (evaluateHand [Ace, King, R5, Ace]) = 17
   \<and> total (evaluateHand [R5, Ace, Ace, King]) = 17"
proof -
  have m: "mset [Ace, King, R5, Ace] = mset [R5, Ace, Ace, King]"
    by (simp add: add_mset_commute)
  have a: "total (evaluateHand [Ace, King, R5, Ace]) = 17"
    by (simp add: evaluateHand_def count_card_def getCardValue_def)
  have b: "total (evaluateHand [R5, Ace, Ace, King]) = 17"
    by (rule trans [OF evaluateHand_total_permutation [OF m, symmetric] a])
  show ?thesis
    by (intro conjI m a b)
qed

subsection \<open>The shoe\<close>

lemma set_deck_keys: "set deck_keys = UNIV"
proof -
  have "c \<in> set deck_keys" for c
    by (cases c) (simp_all add: deck_keys_def)
  then show ?thesis by blast
qed

lemma distinct_deck_keys: "distinct deck_keys"
  by (simp add: deck_keys_def)

lemma totalRemaining_sum:
  "totalRemaining dk = dk R2 + dk R3 + dk R4 + dk R5 + dk R6 + dk R7 + dk R8 + dk R9 + dk R10
     + dk Ace + dk Jack + dk Queen + dk King"
  by (simp add: totalRemaining_def deck_keys_def)

lemma initializeDeck_24: "initializeDeck c = 24"
  by (cases c) (simp_all add: initializeDeck_def CARD_VALUES_def)

lemma totalRemaining_initializeDeck: "totalRemaining initializeDeck = 312"
  by (simp add: totalRemaining_sum initializeDeck_24)

lemma totalRemaining_zero: "totalRemaining emptyDeck = 0"
  by (simp add: totalRemaining_sum emptyDeck_def)

lemma positive_count_total: "0 < dk c \<Longrightarrow> 0 < totalRemaining dk"
  by (cases c) (simp_all add: totalRemaining_sum)

subsection \<open>Outcome estimation\<close>

text \<open>
  C6. For every player hand and dealer up-card, the estimate for a shoe whose remaining
  total is 0 is exactly: win 0, loss 1, push 0, dealer bust 0.
\<close>

theorem empty_shoe_estimate:
  "totalRemaining dk = 0 \<Longrightarrow>
     calculateProbabilities rnd pc up dk =
       \<lparr> winProb = 0, lossProb = 1, pushProb = 0, dealerBustProb = 0 \<rparr>"
  by (simp add: calculateProbabilities_def)

theorem empty_shoe_estimate_witness:
  "totalRemaining emptyDeck = 0 \<and>
   calculateProbabilities binary64 [R10, R6] King emptyDeck =
       \<lparr> winProb = 0, lossProb = 1, pushProb = 0, dealerBustProb = 0 \<rparr>"
  using empty_shoe_estimate [OF totalRemaining_zero, of binary64 "[R10, R6]" King]
    totalRemaining_zero by (intro conjI)

lemma binary64_tenth: "binary64 (1/10) = 3602879701896397 / 36028797018963968"
proof -
  have "binary64 (1/10) = of_int 7205759403792794 * 2 powi (- 56)"
    by (rule binary64_near) (simp_all add: power_int_minus)
  then show ?thesis
    by (simp add: power_int_minus)
qed

lemma binary64_six_tenths: "binary64 (6/10) = 5404319552844595 / 9007199254740992"
proof -
  have "binary64 (6/10) = of_int 5404319552844595 * 2 powi (- 53)"
    by (rule binary64_near) (simp_all add: power_int_minus)
  then show ?thesis
    by (simp add: power_int_minus)
qed

lemma adjustedDealerBust_range:
  assumes "rnd (1/10) \<le> rnd (6/10)"
  shows "rnd (1/10) \<le> adjustedDealerBust rnd up dk \<and> adjustedDealerBust rnd up dk \<le> rnd (6/10)"
  using assms by (simp add: adjustedDealerBust_def Let_def)

lemma dealerBustProb_live:
  "totalRemaining dk \<noteq> 0 \<Longrightarrow>
     dealerBustProb (calculateProbabilities rnd pc up dk) = adjustedDealerBust rnd up dk"
  by (simp add: calculateProbabilities_def Let_def)

lemma clamp_bounds_exact:
  "1/10 \<le> exact (1/10)" "exact (6/10) \<le> 6/10" "exact (1/10) \<le> exact (6/10)"
  unfolding exact_def by simp_all

lemma clamp_bounds_binary64:
  "1/10 \<le> binary64 (1/10)" "binary64 (6/10) \<le> 6/10" "binary64 (1/10) \<le> binary64 (6/10)"
  unfolding binary64_tenth binary64_six_tenths by simp_all

text \<open>
  C7, as stated, for every shoe: the dealer bust probability lies in the interval from 0.10
  to 0.60. It fails for the empty shoe, where the early return of the source gives 0.
\<close>

theorem empty_shoe_dealerBustProb_counterexample:
  "\<not> (1/10 \<le> dealerBustProb (calculateProbabilities binary64 [R10, R6] King emptyDeck))
   \<and> \<not> (1/10 \<le> dealerBustProb (calculateProbabilities exact [R10, R6] King emptyDeck))"
  by (simp add: calculateProbabilities_def totalRemaining_zero)

text \<open>
  C7, amended. For every player hand, dealer up-card and shoe whose remaining total is not
  0, in exact arithmetic and in double precision, the dealer bust probability lies in the
  interval from 0.10 to 0.60: it is the base rate of the up-card plus
  \<open>(lowFraction - highFraction) * 0.1\<close>, clamped to that interval.
\<close>

theorem dealerBustProb_clamped:
  assumes "rnd = exact \<or> rnd = binary64" and "totalRemaining dk \<noteq> 0"
  shows "1/10 \<le> dealerBustProb (calculateProbabilities rnd pc up dk)
       \<and> dealerBustProb (calculateProbabilities rnd pc up dk) \<le> 6/10
       \<and> dealerBustProb (calculateProbabilities rnd pc up dk) =
           (let remaining = of_nat (totalRemaining dk);
                lowFraction = rnd (of_nat (dk R2 + dk R3 + dk R4 + dk R5 + dk R6) / remaining);
                highFraction = rnd (of_nat (dk R10 + dk Jack + dk Queen + dk King + dk Ace) / remaining)
            in max (rnd (1/10)) (min (rnd (6/10))
                 (rnd (dealerBustBase rnd (getCardValue up True)
                       + rnd (rnd (lowFraction - highFraction) * rnd (1/10))))))"
proof -
  have lo: "1/10 \<le> rnd (1/10)" and hi: "rnd (6/10) \<le> 6/10" and le: "rnd (1/10) \<le> rnd (6/10)"
    using assms(1) clamp_bounds_exact clamp_bounds_binary64 by blast+
  have r: "rnd (1/10) \<le> adjustedDealerBust rnd up dk"
    "adjustedDealerBust rnd up dk \<le> rnd (6/10)"
    using adjustedDealerBust_range [OF le] by simp_all
  have e: "dealerBustProb (calculateProbabilities rnd pc up dk) = adjustedDealerBust rnd up dk"
    using assms(2) by (rule dealerBustProb_live)
  have f: "adjustedDealerBust rnd up dk =
           (let remaining = of_nat (totalRemaining dk);
                lowFraction = rnd (of_nat (dk R2 + dk R3 + dk R4 + dk R5 + dk R6) / remaining);
                highFraction = rnd (of_nat (dk R10 + dk Jack + dk Queen + dk King + dk Ace) / remaining)
            in max (rnd (1/10)) (min (rnd (6/10))
                 (rnd (dealerBustBase rnd (getCardValue up True)
                       + rnd (rnd (lowFraction - highFraction) * rnd (1/10))))))"
    by (simp add: adjustedDealerBust_def Let_def)
  show ?thesis
    unfolding e using r lo hi f by (intro conjI) linarith+
qed

theorem dealerBustProb_clamped_witness:
  "totalRemaining initializeDeck \<noteq> 0
   \<and> 1/10 \<le> dealerBustProb (calculateProbabilities binary64 [R10, R6] King initializeDeck)
   \<and> dealerBustProb (calculateProbabilities binary64 [R10, R6] King initializeDeck) \<le> 6/10"
proof -
  have n: "totalRemaining initializeDeck \<noteq> 0"
    by (simp add: totalRemaining_initializeDeck)
  have b: "binary64 = exact \<or> binary64 = binary64"
    by simp
  show ?thesis
    using n dealerBustProb_clamped [OF b n, of "[R10, R6]" King] by (intro conjI) blast+
qed

subsection \<open>The estimate as a probability distribution\<close>

text \<open>
  What the proofs below use of a rounding: it is monotone, it keeps 0 and 1, and its
  relative error is at most \<open>2\<^sup>-\<^sup>5\<^sup>3\<close>. Both \<open>exact\<close> and \<open>binary64\<close> are such roundings.
\<close>

lemma rounding_unit:
  fixes rnd :: "rat \<Rightarrow> rat"
  assumes mono: "\<And>x y. x \<le> y \<Longrightarrow> rnd x \<le> rnd y" and z: "rnd 0 = 0" and o: "rnd 1 = 1"
    and "0 \<le> x" "x \<le> 1"
  shows "0 \<le> rnd x \<and> rnd x \<le> 1"
  using mono [of 0 x] mono [of x 1] assms(4,5) z o by simp

lemma rounding_near:
  fixes rnd :: "rat \<Rightarrow> rat"
  assumes err: "\<And>x. \<bar>rnd x - x\<bar> \<le> \<bar>x\<bar> / 2 ^ 53" and "0 \<le> x"
  shows "999 * x \<le> 1000 * rnd x \<and> 1000 * rnd x \<le> 1001 * x"
proof -
  have "\<bar>rnd x - x\<bar> \<le> x / 2 ^ 53"
    using err [of x] assms(2) by simp
  moreover have "x / 2 ^ 53 \<le> x / 1000"
    using assms(2) by (intro divide_left_mono) simp_all
  ultimately have "\<bar>rnd x - x\<bar> \<le> x / 1000"
    by (rule order_trans)
  then show ?thesis
    by (intro conjI) linarith+
qed

lemma win_live_range:
  fixes rnd :: "rat \<Rightarrow> rat"
  assumes mono: "\<And>x y. x \<le> y \<Longrightarrow> rnd x \<le> rnd y" and z: "rnd 0 = 0"
    and err: "\<And>x. \<bar>rnd x - x\<bar> \<le> \<bar>x\<bar> / 2 ^ 53"
    and d: "0 \<le> d" "1000 * d \<le> 601" and c: "0 \<le> c" "1000 * c \<le> 401"
  shows "0 \<le> rnd (d + rnd (rnd (1 - d) * c))
       \<and> 100 * rnd (d + rnd (rnd (1 - d) * c)) \<le> 77"
proof -
  define a where "a = rnd (1 - d)"
  define t where "t = rnd (a * c)"
  have d1: "0 \<le> 1 - d"
    using d by simp
  have a: "0 \<le> a" "1000 * a \<le> 1001 - 1001 * d"
    using rounding_near [OF err d1] mono [OF d1] z unfolding a_def by (simp_all add: algebra_simps)
  have ac: "0 \<le> a * c" "1000 * (a * c) \<le> 401 * a"
    using a(1) c(1) mult_left_mono [OF c(2) a(1)] by (simp_all add: mult.commute mult.left_commute)
  have t: "0 \<le> t" "1000 * t \<le> 1001 * (a * c)"
    using rounding_near [OF err ac(1)] mono [OF ac(1)] z unfolding t_def by simp_all
  have s: "0 \<le> d + t" "1000 * d + 1000 * t \<le> 765"
    using d a ac t by linarith+
  have "0 \<le> rnd (d + t)" "1000 * rnd (d + t) \<le> 1001 * d + 1001 * t"
    using rounding_near [OF err s(1)] mono [OF s(1)] z by (simp_all add: algebra_simps)
  then show ?thesis
    using s unfolding t_def a_def by (intro conjI) linarith+
qed

lemma win_low_range:
  fixes rnd :: "rat \<Rightarrow> rat"
  assumes mono: "\<And>x y. x \<le> y \<Longrightarrow> rnd x \<le> rnd y" and z: "rnd 0 = 0"
    and err: "\<And>x. \<bar>rnd x - x\<bar> \<le> \<bar>x\<bar> / 2 ^ 53"
    and d: "0 \<le> d" "1000 * d \<le> 601" and c: "0 \<le> c" "1000 * c \<le> 501"
  shows "0 \<le> rnd (d * c) \<and> 100 * rnd (d * c) \<le> 77"
proof -
  have dc: "0 \<le> d * c" "1000 * (d * c) \<le> 501 * d"
    using d(1) c(1) mult_left_mono [OF c(2) d(1)] by (simp_all add: mult.commute mult.left_commute)
  have "0 \<le> rnd (d * c)" "1000 * rnd (d * c) \<le> 1001 * (d * c)"
    using rounding_near [OF err dc(1)] mono [OF dc(1)] z by simp_all
  then show ?thesis
    using dc d by (intro conjI) linarith+
qed

lemma loss_range:
  fixes rnd :: "rat \<Rightarrow> rat"
  assumes mono: "\<And>x y. x \<le> y \<Longrightarrow> rnd x \<le> rnd y" and z: "rnd 0 = 0" and o: "rnd 1 = 1"
    and err: "\<And>x. \<bar>rnd x - x\<bar> \<le> \<bar>x\<bar> / 2 ^ 53"
    and w: "0 \<le> w" "100 * w \<le> 77" and p: "0 \<le> p" "1000 * p \<le> 101"
  shows "0 \<le> rnd (rnd (1 - w) - p) \<and> rnd (rnd (1 - w) - p) \<le> 1
       \<and> \<bar>w + rnd (rnd (1 - w) - p) + p - 1\<bar> \<le> 1 / 2 ^ 52"
proof -
  define a where "a = rnd (1 - w)"
  define l where "l = rnd (a - p)"
  have w1: "0 \<le> 1 - w" "1 - w \<le> 1"
    using w by simp_all
  have a: "999 - 999 * w \<le> 1000 * a" "a \<le> 1"
    using rounding_near [OF err w1(1)] mono [OF w1(2)] o unfolding a_def by (simp_all add: algebra_simps)
  have ap: "0 \<le> a - p" "a - p \<le> 1"
    using a w p by linarith+
  have l: "0 \<le> l" "l \<le> 1"
    using rounding_unit [OF mono z o ap] unfolding l_def by simp_all
  have e1: "\<bar>a - (1 - w)\<bar> \<le> 1 / 2 ^ 53"
  proof -
    have "\<bar>a - (1 - w)\<bar> \<le> \<bar>1 - w\<bar> / 2 ^ 53"
      unfolding a_def by (rule err)
    also have "\<dots> \<le> 1 / 2 ^ 53"
      using w by (intro divide_right_mono) simp_all
    finally show ?thesis .
  qed
  have e2: "\<bar>l - (a - p)\<bar> \<le> 1 / 2 ^ 53"
  proof -
    have "\<bar>l - (a - p)\<bar> \<le> \<bar>a - p\<bar> / 2 ^ 53"
      unfolding l_def by (rule err)
    also have "\<dots> \<le> 1 / 2 ^ 53"
      using ap by (intro divide_right_mono) simp_all
    finally show ?thesis .
  qed
  have "\<bar>w + l + p - 1\<bar> \<le> \<bar>a - (1 - w)\<bar> + \<bar>l - (a - p)\<bar>"
    by linarith
  also have "\<dots> \<le> 1 / 2 ^ 53 + 1 / 2 ^ 53"
    using e1 e2 by (rule add_mono)
  also have "\<dots> = (1::rat) / 2 ^ 52"
    by simp
  finally show ?thesis
    using l unfolding l_def a_def by simp
qed


lemma literal_range:
  fixes rnd :: "rat \<Rightarrow> rat"
  assumes err: "\<And>x. \<bar>rnd x - x\<bar> \<le> \<bar>x\<bar> / 2 ^ 53" and "0 \<le> c"
  shows "0 \<le> rnd c \<and> 1000 * rnd c \<le> 1001 * c"
  using rounding_near [OF err assms(2)] assms(2) by linarith

lemma estimate_ranges:
  fixes rnd :: "rat \<Rightarrow> rat"
  assumes mono: "\<And>x y. x \<le> y \<Longrightarrow> rnd x \<le> rnd y" and z: "rnd 0 = 0" and o: "rnd 1 = 1"
    and err: "\<And>x. \<bar>rnd x - x\<bar> \<le> \<bar>x\<bar> / 2 ^ 53"
  shows "0 \<le> winProb (calculateProbabilities rnd pc up dk)
       \<and> winProb (calculateProbabilities rnd pc up dk) \<le> 1
       \<and> 0 \<le> lossProb (calculateProbabilities rnd pc up dk)
       \<and> lossProb (calculateProbabilities rnd pc up dk) \<le> 1
       \<and> 0 \<le> pushProb (calculateProbabilities rnd pc up dk)
       \<and> pushProb (calculateProbabilities rnd pc up dk) \<le> 1
       \<and> \<bar>winProb (calculateProbabilities rnd pc up dk)
           + lossProb (calculateProbabilities rnd pc up dk)
           + pushProb (calculateProbabilities rnd pc up dk) - 1\<bar> \<le> 1 / 2 ^ 52"
proof -
  have c1: "0 \<le> rnd (1/10)" "1000 * rnd (1/10) \<le> 101"
    using literal_range [OF err, of "1/10"] by simp_all
  have c6: "1000 * rnd (6/10) \<le> 601"
    using literal_range [OF err, of "6/10"] by simp
  have c4: "0 \<le> rnd (4/10)" "1000 * rnd (4/10) \<le> 401"
    using literal_range [OF err, of "4/10"] by simp_all
  have c2: "0 \<le> rnd (2/10)" "1000 * rnd (2/10) \<le> 401"
    using literal_range [OF err, of "2/10"] by simp_all
  have c5: "0 \<le> rnd (5/10)" "1000 * rnd (5/10) \<le> 501"
    using literal_range [OF err, of "5/10"] by simp_all
  have le: "rnd (1/10) \<le> rnd (6/10)"
    by (rule mono) simp
  define d where "d = adjustedDealerBust rnd up dk"
  have d: "0 \<le> d" "1000 * d \<le> 601"
    using adjustedDealerBust_range [OF le, of up dk] c1 c6 unfolding d_def by linarith+
  have small: "(1::rat) / 2 ^ 53 \<le> 1 / 2 ^ 52" "(0::rat) \<le> 1 / 2 ^ 52"
    by simp_all
  show ?thesis
  proof (cases "totalRemaining dk = 0")
    case True
    then show ?thesis
      by (simp add: calculateProbabilities_def)
  next
    case live: False
    show ?thesis
    proof (cases "isBust (evaluateHand pc)")
      case True
      then show ?thesis
        using live by (simp add: calculateProbabilities_def Let_def)
    next
      case nobust: False
      show ?thesis
      proof (cases "isBlackjack (evaluateHand pc)")
        case True
        define b where "b = (if up = Ace then rnd (31/100)
                             else if getCardValue up True = 10 then rnd (8/100) else 0)"
        have b: "0 \<le> b" "b \<le> 1"
          using literal_range [OF err, of "31/100"] literal_range [OF err, of "8/100"]
          unfolding b_def by (auto split: if_splits)
        have b1: "0 \<le> 1 - b" "1 - b \<le> 1"
          using b by simp_all
        have w: "0 \<le> rnd (1 - b)" "rnd (1 - b) \<le> 1"
          using rounding_unit [OF mono z o b1] by simp_all
        have "\<bar>rnd (1 - b) - (1 - b)\<bar> \<le> \<bar>1 - b\<bar> / 2 ^ 53"
          by (rule err)
        also have "\<dots> \<le> 1 / 2 ^ 53"
          using b1 by (intro divide_right_mono) simp_all
        finally have e: "\<bar>rnd (1 - b) + 0 + b - 1\<bar> \<le> 1 / 2 ^ 52"
          using small by linarith
        have E: "calculateProbabilities rnd pc up dk =
            \<lparr> winProb = rnd (1 - b), lossProb = 0, pushProb = b, dealerBustProb = d \<rparr>"
          using live nobust True by (simp add: calculateProbabilities_def Let_def b_def d_def)
        show ?thesis
          unfolding E using w b e by simp
      next
        case False
        define w where "w = (if total (evaluateHand pc) \<ge> 17
                            then rnd (d + rnd (rnd (1 - d) * rnd (4/10)))
                            else if total (evaluateHand pc) \<ge> 12
                            then rnd (d + rnd (rnd (1 - d) * rnd (2/10)))
                            else rnd (d * rnd (5/10)))"
        have w: "0 \<le> w" "100 * w \<le> 77"
          using win_live_range [OF mono z err d c4] win_live_range [OF mono z err d c2]
            win_low_range [OF mono z err d c5]
          unfolding w_def by (auto split: if_splits)
        have w1: "w \<le> 1"
          using w(2) by linarith
        note l = loss_range [OF mono z o err w c1]
        have E: "calculateProbabilities rnd pc up dk =
            \<lparr> winProb = w, lossProb = rnd (rnd (1 - w) - rnd (1/10)), pushProb = rnd (1/10),
              dealerBustProb = d \<rparr>"
          using live nobust False
          by (simp add: calculateProbabilities_def Let_def w_def d_def)
        have p1: "rnd (1/10) \<le> 1"
          using c1(2) by linarith
        show ?thesis
          unfolding E using w(1) w1 l c1(1) p1 by simp
      qed
    qed
  qed
qed

lemma estimate_sum_exact:
  "winProb (calculateProbabilities exact pc up dk)
     + lossProb (calculateProbabilities exact pc up dk)
     + pushProb (calculateProbabilities exact pc up dk) = 1"
  by (simp add: calculateProbabilities_def exact_def Let_def)

text \<open>
  The estimate for the hand 5 against the up-card 2 and the full shoe, in double precision:
  the dealer bust probability is 0.35, the win probability \<open>0.35 * 0.5 = 0.175\<close>, and the
  loss probability \<open>(1 - 0.175) - 0.1\<close>, where \<open>1 - 0.175\<close> lies halfway between two
  doubles and is rounded to the even one. JavaScript prints the three probabilities as
  0.175, 0.725 and 0.1, their sum \<open>0.175 + 0.725\<close> as 0.8999999999999999 and the sum of all
  three as 0.9999999999999999.
\<close>

lemma binary64_est_0: "binary64 (7 / 20) = 3152519739159347 / 9007199254740992"
proof -
  have "binary64 (7 / 20) = of_int 6305039478318694 * 2 powi (- 54)"
    by (rule binary64_near) (simp_all add: power_int_minus)
  then show ?thesis
    by (simp add: power_int_minus)
qed

lemma binary64_est_1: "binary64 (5 / 13) = 6928614811339225 / 18014398509481984"
proof -
  have "binary64 (5 / 13) = of_int 6928614811339225 * 2 powi (- 54)"
    by (rule binary64_near) (simp_all add: power_int_minus)
  then show ?thesis
    by (simp add: power_int_minus)
qed

lemma binary64_est_2: "binary64 (1 / 10) = 3602879701896397 / 36028797018963968"
proof -
  have "binary64 (1 / 10) = of_int 7205759403792794 * 2 powi (- 56)"
    by (rule binary64_near) (simp_all add: power_int_minus)
  then show ?thesis
    by (simp add: power_int_minus)
qed

lemma binary64_est_3: "binary64 (3152519739159347 / 9007199254740992) = 3152519739159347 / 9007199254740992"
proof -
  have "binary64 (3152519739159347 / 9007199254740992) = of_int 6305039478318694 * 2 powi (- 54)"
    by (rule binary64_near) (simp_all add: power_int_minus)
  then show ?thesis
    by (simp add: power_int_minus)
qed

lemma binary64_est_4: "binary64 (3 / 5) = 5404319552844595 / 9007199254740992"
proof -
  have "binary64 (3 / 5) = of_int 5404319552844595 * 2 powi (- 53)"
    by (rule binary64_near) (simp_all add: power_int_minus)
  then show ?thesis
    by (simp add: power_int_minus)
qed

lemma binary64_est_5: "binary64 (1 / 2) = 1 / 2"
proof -
  have "binary64 (1 / 2) = of_int 4503599627370496 * 2 powi (- 53)"
    by (rule binary64_near) (simp_all add: power_int_minus)
  then show ?thesis
    by (simp add: power_int_minus)
qed

lemma binary64_est_6: "binary64 (3152519739159347 / 18014398509481984) = 3152519739159347 / 18014398509481984"
proof -
  have "binary64 (3152519739159347 / 18014398509481984) = of_int 6305039478318694 * 2 powi (- 55)"
    by (rule binary64_near) (simp_all add: power_int_minus)
  then show ?thesis
    by (simp add: power_int_minus)
qed

lemma binary64_est_7: "binary64 (14861878770322637 / 18014398509481984) = 3715469692580659 / 4503599627370496"
proof -
  have "binary64 (14861878770322637 / 18014398509481984) = of_int (if even (7430939385161318::int) then 7430939385161318 else 7430939385161318 + 1) * 2 powi (- 53)"
    by (rule binary64_tie) (simp_all add: power_int_minus)
  then show ?thesis
    by (simp add: power_int_minus)
qed

lemma binary64_est_8: "binary64 (26120877838748875 / 36028797018963968) = 6530219459687219 / 9007199254740992"
proof -
  have "binary64 (26120877838748875 / 36028797018963968) = of_int 6530219459687219 * 2 powi (- 53)"
    by (rule binary64_near) (simp_all add: power_int_minus)
  then show ?thesis
    by (simp add: power_int_minus)
qed

lemma binary64_est_9: "binary64 (16212958658533785 / 18014398509481984) = 2026619832316723 / 2251799813685248"
proof -
  have "binary64 (16212958658533785 / 18014398509481984) = of_int (if even (8106479329266892::int) then 8106479329266892 else 8106479329266892 + 1) * 2 powi (- 53)"
    by (rule binary64_tie) (simp_all add: power_int_minus)
  then show ?thesis
    by (simp add: power_int_minus)
qed

lemma binary64_est_10: "binary64 (36028797018963965 / 36028797018963968) = 9007199254740991 / 9007199254740992"
proof -
  have "binary64 (36028797018963965 / 36028797018963968) = of_int 9007199254740991 * 2 powi (- 53)"
    by (rule binary64_near) (simp_all add: power_int_minus)
  then show ?thesis
    by (simp add: power_int_minus)
qed


lemmas binary64_est_values = binary64_zero binary64_minus binary64_est_0 binary64_est_1 binary64_est_2 binary64_est_3 binary64_est_4 binary64_est_5 binary64_est_6 binary64_est_7 binary64_est_8 binary64_est_9 binary64_est_10

lemma evaluateHand_five:
  "evaluateHand [R5] = \<lparr> total = 5, isSoft = False, isBlackjack = False, isBust = False \<rparr>"
  by (simp add: evaluateHand_def count_card_def getCardValue_def)


lemma dealerBustBase_two: "dealerBustBase binary64 2 = 3152519739159347 / 9007199254740992"
  by (simp add: dealerBustBase_def dealerBustProbabilities_def binary64_est_0)

lemma adjustedDealerBust_fresh_two: "adjustedDealerBust binary64 R2 initializeDeck = 3152519739159347 / 9007199254740992"
  by (simp add: adjustedDealerBust_def dealerBustBase_two totalRemaining_initializeDeck initializeDeck_24
        getCardValue_def Let_def binary64_est_values)


lemma estimate_five_vs_two:
  "calculateProbabilities binary64 [R5] R2 initializeDeck =
     \<lparr> winProb = 3152519739159347 / 18014398509481984, lossProb = 6530219459687219 / 9007199254740992,
       pushProb = 3602879701896397 / 36028797018963968, dealerBustProb = 3152519739159347 / 9007199254740992 \<rparr>"
  by (simp add: calculateProbabilities_def adjustedDealerBust_fresh_two totalRemaining_initializeDeck
        evaluateHand_five Let_def binary64_est_values)

text \<open>
  C10, as stated: the three probabilities add up to exactly 1. In double precision they do
  not for the hand 5 against the up-card 2 and the full shoe: neither the sum of the three
  numbers nor the sum as JavaScript computes it is 1 (it is \<open>1 - 2\<^sup>-\<^sup>5\<^sup>3\<close>).
\<close>

theorem estimate_sum_counterexample:
  "winProb (calculateProbabilities binary64 [R5] R2 initializeDeck)
     + lossProb (calculateProbabilities binary64 [R5] R2 initializeDeck)
     + pushProb (calculateProbabilities binary64 [R5] R2 initializeDeck) \<noteq> 1
   \<and> binary64 (binary64 (winProb (calculateProbabilities binary64 [R5] R2 initializeDeck)
         + lossProb (calculateProbabilities binary64 [R5] R2 initializeDeck))
       + pushProb (calculateProbabilities binary64 [R5] R2 initializeDeck)) \<noteq> 1"
  unfolding estimate_five_vs_two by (simp add: binary64_est_values)

text \<open>
  C10, amended. For every player hand, dealer up-card and shoe, in exact arithmetic and in
  double precision, each of the win, loss and push probabilities lies between 0 and 1, and
  their sum differs from 1 by at most \<open>2\<^sup>-\<^sup>5\<^sup>2\<close>; in exact arithmetic the sum is exactly 1.
\<close>

theorem estimate_normalised:
  assumes "rnd = exact \<or> rnd = binary64"
  shows "0 \<le> winProb (calculateProbabilities rnd pc up dk)
       \<and> winProb (calculateProbabilities rnd pc up dk) \<le> 1
       \<and> 0 \<le> lossProb (calculateProbabilities rnd pc up dk)
       \<and> lossProb (calculateProbabilities rnd pc up dk) \<le> 1
       \<and> 0 \<le> pushProb (calculateProbabilities rnd pc up dk)
       \<and> pushProb (calculateProbabilities rnd pc up dk) \<le> 1
       \<and> \<bar>winProb (calculateProbabilities rnd pc up dk)
           + lossProb (calculateProbabilities rnd pc up dk)
           + pushProb (calculateProbabilities rnd pc up dk) - 1\<bar> \<le> 1 / 2 ^ 52
       \<and> winProb (calculateProbabilities exact pc up dk)
           + lossProb (calculateProbabilities exact pc up dk)
           + pushProb (calculateProbabilities exact pc up dk) = 1"
proof -
  have "0 \<le> winProb (calculateProbabilities rnd pc up dk)
       \<and> winProb (calculateProbabilities rnd pc up dk) \<le> 1
       \<and> 0 \<le> lossProb (calculateProbabilities rnd pc up dk)
       \<and> lossProb (calculateProbabilities rnd pc up dk) \<le> 1
       \<and> 0 \<le> pushProb (calculateProbabilities rnd pc up dk)
       \<and> pushProb (calculateProbabilities rnd pc up dk) \<le> 1
       \<and> \<bar>winProb (calculateProbabilities rnd pc up dk)
           + lossProb (calculateProbabilities rnd pc up dk)
           + pushProb (calculateProbabilities rnd pc up dk) - 1\<bar> \<le> 1 / 2 ^ 52"
    using assms
  proof
    assume r: "rnd = exact"
    show ?thesis
      unfolding r by (rule estimate_ranges) (simp_all add: exact_def)
  next
    assume r: "rnd = binary64"
    show ?thesis
      unfolding r
      by (rule estimate_ranges [OF binary64_mono binary64_zero binary64_one binary64_error])
  qed
  then show ?thesis
    using estimate_sum_exact [of pc up dk] by blast
qed

theorem estimate_normalised_witness:
  "0 \<le> lossProb (calculateProbabilities binary64 [R5] R2 initializeDeck)
   \<and> lossProb (calculateProbabilities binary64 [R5] R2 initializeDeck) \<le> 1
   \<and> \<bar>winProb (calculateProbabilities binary64 [R5] R2 initializeDeck)
       + lossProb (calculateProbabilities binary64 [R5] R2 initializeDeck)
       + pushProb (calculateProbabilities binary64 [R5] R2 initializeDeck) - 1\<bar> \<le> 1 / 2 ^ 52
   \<and> winProb (calculateProbabilities exact [R5] R2 initializeDeck)
       + lossProb (calculateProbabilities exact [R5] R2 initializeDeck)
       + pushProb (calculateProbabilities exact [R5] R2 initializeDeck) = 1"
proof -
  have b: "binary64 = exact \<or> binary64 = binary64"
    by simp
  show ?thesis
    using estimate_normalised [OF b, of "[R5]" R2 initializeDeck] by blast
qed

subsection \<open>Strategy recommendation\<close>

text \<open>The sorted array of actions is never empty, so the recommendation always exists.\<close>

lemma insertAction_not_empty: "insertAction rnd a xs \<noteq> []"
  by (cases xs) simp_all

lemma sortActions_not_empty: "sortActions rnd (a # xs) \<noteq> []"
  by (simp add: sortActions_def insertAction_not_empty)

lemma recommendation_total:
  "\<exists>r. getStrategyRecommendation rnd pc up dk cd cs = Inr r
     \<and> standEV r = standValue rnd (calculateProbabilities rnd pc up dk)
     \<and> hitEV r = hitValue rnd pc up dk (standValue rnd (calculateProbabilities rnd pc up dk))"
proof -
  define stand where "stand = standValue rnd (calculateProbabilities rnd pc up dk)"
  define hit where "hit = hitValue rnd pc up dk stand"
  define actions where "actions = sortActions rnd
      (filter (\<lambda>a. snd a \<noteq> NegInfinity)
         [(STAND, Fin stand), (HIT, Fin hit),
          (DOUBLE, if cd then Fin (rnd (hit * 2)) else NegInfinity),
          (SPLIT, if cs then Fin (rnd (stand * rnd (9/10))) else NegInfinity)])"
  have "actions \<noteq> []"
    unfolding actions_def by (simp add: sortActions_not_empty)
  then obtain a as where a: "actions = a # as"
    by (cases actions) simp_all
  have "getStrategyRecommendation rnd pc up dk cd cs =
      Inr \<lparr> recommendedAction = fst a, expectedValues = actions, standEV = stand, hitEV = hit \<rparr>"
    unfolding getStrategyRecommendation_def Let_def
    unfolding stand_def [symmetric] hit_def [symmetric] actions_def [symmetric]
    by (simp add: a)
  then show ?thesis
    unfolding stand_def hit_def by simp
qed

lemma standValue_exact: "standValue exact E = winProb E - lossProb E"
  by (simp add: standValue_def exact_def)

lemma foldl_hitStep_exact:
  "foldl (hitStep exact pc up dk T s) acc keys =
     acc + (\<Sum>c\<leftarrow>keys. if 0 < dk c
               then of_nat (dk c) / of_nat T *
                      (if isBust (evaluateHand (pc @ [c])) then - 1 - s
                       else standValue exact
                              (calculateProbabilities exact (pc @ [c]) up (dk(c := dk c - 1))) - s)
               else 0)"
  by (induction keys arbitrary: acc) (simp_all add: hitStep_def Let_def exact_def)

lemma finite_ranks: "finite (UNIV :: rank set)"
  unfolding set_deck_keys [symmetric] by (rule finite_set)

lemma sum_deck_keys:
  "(\<Sum>c\<leftarrow>deck_keys. if 0 < dk c then f c else (0::rat)) = (\<Sum>c\<in>{c. 0 < (dk c :: nat)}. f c)"
proof -
  have "(\<Sum>c\<leftarrow>deck_keys. if 0 < dk c then f c else 0) = (\<Sum>c\<in>UNIV. if 0 < dk c then f c else 0)"
    unfolding set_deck_keys [symmetric] by (rule sum_list_distinct_conv_sum_set [OF distinct_deck_keys])
  also have "\<dots> = (\<Sum>c\<in>{c. 0 < dk c}. f c)"
    using finite_ranks by (simp add: sum.If_cases)
  finally show ?thesis .
qed

lemma hitValue_exact:
  "hitValue exact pc up dk s =
     (if 21 \<le> total (evaluateHand pc) then s
      else s + (\<Sum>c\<in>{c. 0 < dk c}.
                  of_nat (dk c) / of_nat (totalRemaining dk) *
                    (if isBust (evaluateHand (pc @ [c])) then - 1 - s
                     else standValue exact
                            (calculateProbabilities exact (pc @ [c]) up (dk(c := dk c - 1))) - s)))"
  unfolding hitValue_def foldl_hitStep_exact sum_deck_keys by simp

lemma foldl_hitStep_filter:
  "foldl (hitStep rnd pc up dk T s) acc keys =
     foldl (\<lambda>acc c. rnd (acc + rnd (rnd (of_nat (dk c) / of_nat T) *
               (if isBust (evaluateHand (pc @ [c])) then rnd (- 1 - s)
                else rnd (standValue rnd
                            (calculateProbabilities rnd (pc @ [c]) up (dk(c := dk c - 1))) - s)))))
       acc (filter (\<lambda>c. 0 < dk c) keys)"
  by (induction keys arbitrary: acc) (simp_all add: hitStep_def Let_def)

lemma hitValue_loop:
  "hitValue rnd pc up dk s =
     (if 21 \<le> total (evaluateHand pc) then s
      else foldl (\<lambda>acc c. rnd (acc + rnd (rnd (of_nat (dk c) / of_nat (totalRemaining dk)) *
               (if isBust (evaluateHand (pc @ [c])) then rnd (- 1 - s)
                else rnd (standValue rnd
                            (calculateProbabilities rnd (pc @ [c]) up (dk(c := dk c - 1))) - s)))))
             s (filter (\<lambda>c. 0 < dk c) deck_keys))"
  unfolding hitValue_def foldl_hitStep_filter by simp

text \<open>
  C3. For every player hand, dealer up-card and shoe the recommender returns, and: if the
  total of the hand is 21 or more, the hit value equals the stand value; otherwise the hit
  value is the stand value plus, for each rank \<open>c\<close> with a positive count,
  \<open>count c / remaining total\<close> times \<open>- 1 - standEV\<close> if the hand with \<open>c\<close> appended
  is bust, and otherwise times the difference between the stand value of the estimate for
  the extended hand against the shoe with one card of rank \<open>c\<close> removed and the stand value.
  With a rounding the contributions are added one after the other, each operation rounded;
  in exact arithmetic the stand value is the win probability minus the loss probability
  and the hit value is the stand value plus the sum of the contributions.
\<close>

theorem hit_value_weighted:
  "(\<exists>r. getStrategyRecommendation rnd pc up dk cd cs = Inr r
     \<and> standEV r = standValue rnd (calculateProbabilities rnd pc up dk)
     \<and> hitEV r =
         (if 21 \<le> total (evaluateHand pc) then standEV r
          else foldl (\<lambda>acc c. rnd (acc + rnd (rnd (of_nat (dk c) / of_nat (totalRemaining dk)) *
                   (if isBust (evaluateHand (pc @ [c])) then rnd (- 1 - standEV r)
                    else rnd (standValue rnd
                           (calculateProbabilities rnd (pc @ [c]) up (dk(c := dk c - 1)))
                         - standEV r)))))
                 (standEV r) (filter (\<lambda>c. 0 < dk c) deck_keys)))
   \<and> (\<exists>r. getStrategyRecommendation exact pc up dk cd cs = Inr r
     \<and> standEV r = winProb (calculateProbabilities exact pc up dk)
                   - lossProb (calculateProbabilities exact pc up dk)
     \<and> hitEV r =
         (if 21 \<le> total (evaluateHand pc) then standEV r
          else standEV r + (\<Sum>c\<in>{c. 0 < dk c}.
                 of_nat (dk c) / of_nat (totalRemaining dk) *
                   (if isBust (evaluateHand (pc @ [c])) then - 1 - standEV r
                    else (winProb (calculateProbabilities exact (pc @ [c]) up (dk(c := dk c - 1)))
                          - lossProb (calculateProbabilities exact (pc @ [c]) up (dk(c := dk c - 1))))
                         - standEV r))))"
proof (rule conjI)
  obtain r where r: "getStrategyRecommendation rnd pc up dk cd cs = Inr r"
      "standEV r = standValue rnd (calculateProbabilities rnd pc up dk)"
      "hitEV r = hitValue rnd pc up dk (standValue rnd (calculateProbabilities rnd pc up dk))"
    using recommendation_total [of rnd pc up dk cd cs] by blast
  have h: "hitEV r = hitValue rnd pc up dk (standEV r)"
    unfolding r(3) r(2) ..
  show "\<exists>r. getStrategyRecommendation rnd pc up dk cd cs = Inr r
     \<and> standEV r = standValue rnd (calculateProbabilities rnd pc up dk)
     \<and> hitEV r =
         (if 21 \<le> total (evaluateHand pc) then standEV r
          else foldl (\<lambda>acc c. rnd (acc + rnd (rnd (of_nat (dk c) / of_nat (totalRemaining dk)) *
                   (if isBust (evaluateHand (pc @ [c])) then rnd (- 1 - standEV r)
                    else rnd (standValue rnd
                           (calculateProbabilities rnd (pc @ [c]) up (dk(c := dk c - 1)))
                         - standEV r)))))
                 (standEV r) (filter (\<lambda>c. 0 < dk c) deck_keys))"
    by (rule exI [of _ r], intro conjI r(1) r(2), unfold h hitValue_loop) (rule refl)
next
  obtain r where r: "getStrategyRecommendation exact pc up dk cd cs = Inr r"
      "standEV r = standValue exact (calculateProbabilities exact pc up dk)"
      "hitEV r = hitValue exact pc up dk (standValue exact (calculateProbabilities exact pc up dk))"
    using recommendation_total [of exact pc up dk cd cs] by blast
  have s: "standEV r = winProb (calculateProbabilities exact pc up dk)
                   - lossProb (calculateProbabilities exact pc up dk)"
    unfolding r(2) by (rule standValue_exact)
  have h: "hitEV r = hitValue exact pc up dk (standEV r)"
    unfolding r(3) r(2) ..
  show "\<exists>r. getStrategyRecommendation exact pc up dk cd cs = Inr r
     \<and> standEV r = winProb (calculateProbabilities exact pc up dk)
                   - lossProb (calculateProbabilities exact pc up dk)
     \<and> hitEV r =
         (if 21 \<le> total (evaluateHand pc) then standEV r
          else standEV r + (\<Sum>c\<in>{c. 0 < dk c}.
                 of_nat (dk c) / of_nat (totalRemaining dk) *
                   (if isBust (evaluateHand (pc @ [c])) then - 1 - standEV r
                    else (winProb (calculateProbabilities exact (pc @ [c]) up (dk(c := dk c - 1)))
                          - lossProb (calculateProbabilities exact (pc @ [c]) up (dk(c := dk c - 1))))
                         - standEV r)))"
    by (rule exI [of _ r], intro conjI r(1) s, unfold h hitValue_exact standValue_exact) (rule refl)
qed

text \<open>
  The sort: for finite values and a rounding that keeps the sign, the comparison function
  is positive exactly when the first value is smaller, the insertion keeps the entries, and
  the first entry of the sorted list is the first entry of the input among those with the
  largest value.
\<close>

lemma compare_fin:
  fixes rnd :: "rat \<Rightarrow> rat"
  assumes sign: "\<And>x. (0 < rnd x) = (0 < x)"
  shows "js_positive (compareActions rnd (a, Fin v) (b, Fin w)) = (v < w)"
  by (simp add: compareActions_def sign)

lemma insertAction_fin:
  fixes rnd :: "rat \<Rightarrow> rat"
  assumes sign: "\<And>x. (0 < rnd x) = (0 < x)"
  shows "\<exists>zs. insertAction rnd (a, Fin v) (map (\<lambda>(a, v). (a, Fin v)) ys)
                = map (\<lambda>(a, v). (a, Fin v)) zs
             \<and> mset zs = mset ((a, v) # ys)
             \<and> hd zs = (if ys = [] \<or> snd (hd ys) \<le> v then (a, v) else hd ys)"
proof (induction ys)
  case Nil
  show ?case
    by (rule exI [of _ "[(a, v)]"]) simp
next
  case (Cons y ys)
  obtain b w where y: "y = (b, w)"
    by (cases y)
  show ?case
  proof (cases "v < w")
    case True
    from Cons obtain zs where zs:
        "insertAction rnd (a, Fin v) (map (\<lambda>(a, v). (a, Fin v)) ys) = map (\<lambda>(a, v). (a, Fin v)) zs"
        "mset zs = mset ((a, v) # ys)"
      by blast
    show ?thesis
      by (rule exI [of _ "y # zs"]) (use True zs in \<open>simp add: y compare_fin [OF sign]\<close>)
  next
    case False
    show ?thesis
      by (rule exI [of _ "(a, v) # y # ys"]) (use False in \<open>simp add: y compare_fin [OF sign]\<close>)
  qed
qed

lemma first_maximum_Cons:
  fixes y :: "'a \<times> rat"
  assumes "ys \<noteq> []"
  shows "hd (filter (\<lambda>e. snd e = Max (snd ` set (y # ys))) (y # ys)) =
     (if Max (snd ` set ys) \<le> snd y then y
      else hd (filter (\<lambda>e. snd e = Max (snd ` set ys)) ys))"
proof -
  have m: "Max (snd ` set (y # ys)) = max (snd y) (Max (snd ` set ys))"
    using assms by simp
  show ?thesis
    unfolding m by (auto simp: max_def)
qed

lemma first_maximum_value:
  fixes ys :: "('a \<times> rat) list"
  assumes "ys \<noteq> []"
  shows "snd (hd (filter (\<lambda>e. snd e = Max (snd ` set ys)) ys)) = Max (snd ` set ys)"
proof -
  have "Max (snd ` set ys) \<in> snd ` set ys"
    using assms by (intro Max_in) simp_all
  then obtain e where "e \<in> set ys" "snd e = Max (snd ` set ys)"
    by (auto simp: image_iff)
  then have "filter (\<lambda>e. snd e = Max (snd ` set ys)) ys \<noteq> []"
    unfolding filter_empty_conv by blast
  then have "hd (filter (\<lambda>e. snd e = Max (snd ` set ys)) ys)
      \<in> set (filter (\<lambda>e. snd e = Max (snd ` set ys)) ys)"
    by (rule hd_in_set)
  then show ?thesis
    by simp
qed

lemma sortActions_fin:
  fixes rnd :: "rat \<Rightarrow> rat"
  assumes sign: "\<And>x. (0 < rnd x) = (0 < x)"
  shows "\<exists>zs. sortActions rnd (map (\<lambda>(a, v). (a, Fin v)) ys) = map (\<lambda>(a, v). (a, Fin v)) zs
             \<and> mset zs = mset ys
             \<and> (ys = [] \<or> hd zs = hd (filter (\<lambda>e. snd e = Max (snd ` set ys)) ys))"
proof (induction ys)
  case Nil
  show ?case
    by (simp add: sortActions_def)
next
  case (Cons y ys)
  obtain a v where y: "y = (a, v)"
    by (cases y)
  from Cons obtain zs where zs:
      "sortActions rnd (map (\<lambda>(a, v). (a, Fin v)) ys) = map (\<lambda>(a, v). (a, Fin v)) zs"
      "mset zs = mset ys"
      "ys = [] \<or> hd zs = hd (filter (\<lambda>e. snd e = Max (snd ` set ys)) ys)"
    by blast
  from insertAction_fin [OF sign, of a v zs] obtain us where us:
      "insertAction rnd (a, Fin v) (map (\<lambda>(a, v). (a, Fin v)) zs) = map (\<lambda>(a, v). (a, Fin v)) us"
      "mset us = mset ((a, v) # zs)"
      "hd us = (if zs = [] \<or> snd (hd zs) \<le> v then (a, v) else hd zs)"
    by blast
  have s: "sortActions rnd (map (\<lambda>(a, v). (a, Fin v)) (y # ys)) = map (\<lambda>(a, v). (a, Fin v)) us"
    using zs(1) us(1) by (simp add: sortActions_def y)
  have m: "mset us = mset (y # ys)"
    using us(2) zs(2) by (simp add: y)
  have e: "(zs = []) = (ys = [])"
    using zs(2) by (metis mset_zero_iff)
  have h: "hd us = hd (filter (\<lambda>e. snd e = Max (snd ` set (y # ys))) (y # ys))"
  proof (cases "ys = []")
    case True
    then show ?thesis
      using us(3) e by (simp add: y)
  next
    case False
    then have hz: "hd zs = hd (filter (\<lambda>e. snd e = Max (snd ` set ys)) ys)"
      using zs(3) by simp
    have v: "snd (hd zs) = Max (snd ` set ys)"
      unfolding hz by (rule first_maximum_value [OF False])
    have nz: "zs \<noteq> []"
      using False e by simp
    show ?thesis
    proof (cases "Max (snd ` set ys) \<le> v")
      case True
      then have "hd us = (a, v)"
        using us(3) v by simp
      moreover have "hd (filter (\<lambda>e. snd e = Max (snd ` set (y # ys))) (y # ys)) = y"
        unfolding first_maximum_Cons [OF False] using True by (simp add: y)
      ultimately show ?thesis
        by (simp add: y)
    next
      case nle: False
      then have "hd us = hd zs"
        using us(3) v nz by simp
      moreover have "hd (filter (\<lambda>e. snd e = Max (snd ` set (y # ys))) (y # ys)) =
          hd (filter (\<lambda>e. snd e = Max (snd ` set ys)) ys)"
        unfolding first_maximum_Cons [OF False] using nle by (simp add: y)
      ultimately show ?thesis
        using hz by simp
    qed
  qed
  show ?case
    by (rule exI [of _ us]) (use s m h in simp)
qed


lemma eligible_actions:
  "filter (\<lambda>a. snd a \<noteq> NegInfinity)
     [(STAND, Fin s), (HIT, Fin h),
      (DOUBLE, if cd then Fin d else NegInfinity),
      (SPLIT, if cs then Fin p else NegInfinity)] =
   map (\<lambda>(a, v). (a, Fin v))
     ([(STAND, s), (HIT, h)] @ (if cd then [(DOUBLE, d)] else [])
        @ (if cs then [(SPLIT, p)] else []))"
  by simp

lemma recommendation_ranked:
  fixes rnd :: "rat \<Rightarrow> rat"
  assumes sign: "\<And>x. (0 < rnd x) = (0 < x)"
  shows "\<exists>r. getStrategyRecommendation rnd pc up dk cd cs = Inr r
     \<and> (let evs = [(STAND, standEV r), (HIT, hitEV r)]
                    @ (if cd then [(DOUBLE, rnd (hitEV r * 2))] else [])
                    @ (if cs then [(SPLIT, rnd (standEV r * rnd (9/10)))] else [])
        in mset (expectedValues r) = mset (map (\<lambda>(a, v). (a, Fin v)) evs)
         \<and> set (map fst (expectedValues r)) =
             {STAND, HIT} \<union> (if cd then {DOUBLE} else {}) \<union> (if cs then {SPLIT} else {})
         \<and> recommendedAction r = fst (hd (filter (\<lambda>e. snd e = Max (snd ` set evs)) evs)))"
proof -
  define stand where "stand = standValue rnd (calculateProbabilities rnd pc up dk)"
  define hit where "hit = hitValue rnd pc up dk stand"
  define evs where "evs = [(STAND, stand), (HIT, hit)]
                    @ (if cd then [(DOUBLE, rnd (hit * 2))] else [])
                    @ (if cs then [(SPLIT, rnd (stand * rnd (9/10)))] else [])"
  have ne: "evs \<noteq> []"
    unfolding evs_def by simp
  from sortActions_fin [OF sign, of evs] ne obtain zs where zs:
      "sortActions rnd (map (\<lambda>(a, v). (a, Fin v)) evs) = map (\<lambda>(a, v). (a, Fin v)) zs"
      "mset zs = mset evs"
      "hd zs = hd (filter (\<lambda>e. snd e = Max (snd ` set evs)) evs)"
    by blast
  have nz: "zs \<noteq> []"
    using zs(2) ne by (metis mset_zero_iff)
  then obtain z zs' where z: "zs = z # zs'"
    by (cases zs) simp_all
  define r where "r = \<lparr> recommendedAction = fst z,
      expectedValues = map (\<lambda>(a, v). (a, Fin v)) zs, standEV = stand, hitEV = hit \<rparr>"
  have g: "getStrategyRecommendation rnd pc up dk cd cs = Inr r"
    unfolding getStrategyRecommendation_def Let_def
    unfolding stand_def [symmetric] hit_def [symmetric] eligible_actions evs_def [symmetric] zs(1)
    by (simp add: z r_def split: prod.split)
  have m: "mset (expectedValues r) = mset (map (\<lambda>(a, v). (a, Fin v)) evs)"
    using zs(2) by (simp add: r_def)
  have "set (map fst (expectedValues r)) = fst ` set zs"
    by (force simp: r_def)
  also have "\<dots> = fst ` set evs"
    using zs(2) by (metis set_mset_mset)
  also have "\<dots> = {STAND, HIT} \<union> (if cd then {DOUBLE} else {}) \<union> (if cs then {SPLIT} else {})"
    unfolding evs_def by auto
  finally have k: "set (map fst (expectedValues r)) =
      {STAND, HIT} \<union> (if cd then {DOUBLE} else {}) \<union> (if cs then {SPLIT} else {})" .
  have a: "recommendedAction r = fst (hd (filter (\<lambda>e. snd e = Max (snd ` set evs)) evs))"
    using zs(3) by (simp add: r_def z)
  have e: "[(STAND, standEV r), (HIT, hitEV r)]
             @ (if cd then [(DOUBLE, rnd (hitEV r * 2))] else [])
             @ (if cs then [(SPLIT, rnd (standEV r * rnd (9/10)))] else []) = evs"
    by (simp add: r_def evs_def)
  show ?thesis
    by (rule exI [of _ r]) (simp only: Let_def e g m k a simp_thms)
qed

lemma exact_sign: "(0 < exact x) = (0 < x)"
  by (simp add: exact_def)

text \<open>
  C4. For every call of the recommender, in exact arithmetic and in double precision, the
  call returns; \<open>expectedValues\<close> holds exactly the eligible actions with their values
  (STAND and HIT always, DOUBLE exactly when \<open>canDouble\<close>, SPLIT exactly when
  \<open>canSplit\<close>); and the recommended action is the first action, in the order STAND, HIT,
  DOUBLE, SPLIT, among the eligible actions whose value is the maximum.
\<close>

theorem recommendation_maximal:
  assumes "rnd = exact \<or> rnd = binary64"
  shows "\<exists>r. getStrategyRecommendation rnd pc up dk cd cs = Inr r
     \<and> (let evs = [(STAND, standEV r), (HIT, hitEV r)]
                    @ (if cd then [(DOUBLE, rnd (hitEV r * 2))] else [])
                    @ (if cs then [(SPLIT, rnd (standEV r * rnd (9/10)))] else [])
        in mset (expectedValues r) = mset (map (\<lambda>(a, v). (a, Fin v)) evs)
         \<and> set (map fst (expectedValues r)) =
             {STAND, HIT} \<union> (if cd then {DOUBLE} else {}) \<union> (if cs then {SPLIT} else {})
         \<and> recommendedAction r = fst (hd (filter (\<lambda>e. snd e = Max (snd ` set evs)) evs)))"
  using assms
proof
  assume r: "rnd = exact"
  show ?thesis
    unfolding r by (rule recommendation_ranked) (rule exact_sign)
next
  assume r: "rnd = binary64"
  show ?thesis
    unfolding r by (rule recommendation_ranked) (rule binary64_sign)
qed

text \<open>
  An example in exact arithmetic: 10 and 6 against a king, from the full shoe. Standing is
  worth \<open>- 0.132\<close>, hitting about \<open>- 0.548\<close> and doubling twice that, so the
  recommendation is to stand.
\<close>

lemma hand_ten_six:
  "evaluateHand [R10, R6] = \<lparr> total = 16, isSoft = False, isBlackjack = False, isBust = False \<rparr>"
  by (simp add: evaluateHand_def count_card_def getCardValue_def)

lemma hand_ten_six_plus:
  "evaluateHand [R10, R6, c] =
     (if c = Ace then \<lparr> total = 17, isSoft = False, isBlackjack = False, isBust = False \<rparr>
      else \<lparr> total = 16 + getCardValue c True, isSoft = False, isBlackjack = False,
              isBust = (5 < getCardValue c True) \<rparr>)"
  by (cases c) (simp_all add: evaluateHand_def count_card_def getCardValue_def)

lemma totalRemaining_one_drawn:
  "totalRemaining (initializeDeck(c := 23)) = 311"
  by (cases c) (simp_all add: totalRemaining_sum initializeDeck_24)

lemma estimate_ten_six:
  "calculateProbabilities exact [R10, R6] King initializeDeck =
     \<lparr> winProb = 48/125, lossProb = 129/250, pushProb = 1/10, dealerBustProb = 23/100 \<rparr>"
  by (simp add: calculateProbabilities_def adjustedDealerBust_def dealerBustBase_def
        dealerBustProbabilities_def totalRemaining_initializeDeck initializeDeck_24
        hand_ten_six getCardValue_def Let_def exact_def)

lemma stand_ten_six:
  "standValue exact (calculateProbabilities exact [R10, R6] King initializeDeck) = - (33/250)"
  unfolding estimate_ten_six by (simp add: standValue_def exact_def)

lemma bust_drawn_low:
  "adjustedDealerBust exact King (initializeDeck(R2 := 23)) = 7143/31100"
  "adjustedDealerBust exact King (initializeDeck(R3 := 23)) = 7143/31100"
  "adjustedDealerBust exact King (initializeDeck(R4 := 23)) = 7143/31100"
  "adjustedDealerBust exact King (initializeDeck(R5 := 23)) = 7143/31100"
  by (simp_all add: adjustedDealerBust_def dealerBustBase_def dealerBustProbabilities_def
        totalRemaining_one_drawn initializeDeck_24 getCardValue_def Let_def exact_def)

lemma bust_drawn_ace:
  "adjustedDealerBust exact King (initializeDeck(Ace := 23)) = 7163/31100"
  by (simp add: adjustedDealerBust_def dealerBustBase_def dealerBustProbabilities_def
        totalRemaining_one_drawn initializeDeck_24 getCardValue_def Let_def exact_def)


lemma stand_drawn_low:
  "standValue exact (calculateProbabilities exact [R10, R6, R2] King (initializeDeck(R2 := 23)))
     = 6827/38875"
  "standValue exact (calculateProbabilities exact [R10, R6, R3] King (initializeDeck(R3 := 23)))
     = 6827/38875"
  "standValue exact (calculateProbabilities exact [R10, R6, R4] King (initializeDeck(R4 := 23)))
     = 6827/38875"
  "standValue exact (calculateProbabilities exact [R10, R6, R5] King (initializeDeck(R5 := 23)))
     = 6827/38875"
  by (simp_all add: calculateProbabilities_def bust_drawn_low totalRemaining_one_drawn
        hand_ten_six_plus getCardValue_def Let_def exact_def standValue_def)

lemma stand_drawn_ace:
  "standValue exact (calculateProbabilities exact [R10, R6, Ace] King (initializeDeck(Ace := 23)))
     = 6857/38875"
  by (simp add: calculateProbabilities_def bust_drawn_ace totalRemaining_one_drawn
        hand_ten_six_plus getCardValue_def Let_def exact_def standValue_def)


lemma hit_ten_six:
  "hitValue exact [R10, R6] King initializeDeck (- (33/250)) = - (4259/7775)"
  by (simp add: hitValue_def deck_keys_def hitStep_def hand_ten_six hand_ten_six_plus
        initializeDeck_24 totalRemaining_initializeDeck getCardValue_def exact_def
        stand_drawn_low stand_drawn_ace)

lemma recommendation_ten_six:
  "getStrategyRecommendation exact [R10, R6] King initializeDeck True False =
     Inr \<lparr> recommendedAction = STAND,
           expectedValues = [(STAND, Fin (- (33/250))), (HIT, Fin (- (4259/7775))),
                             (DOUBLE, Fin (- (8518/7775)))],
           standEV = - (33/250), hitEV = - (4259/7775) \<rparr>"
  by (simp add: getStrategyRecommendation_def stand_ten_six hit_ten_six sortActions_def
        compareActions_def exact_def Let_def)

theorem recommendation_maximal_witness:
  "\<exists>r. getStrategyRecommendation exact [R10, R6] King initializeDeck True False = Inr r
     \<and> standEV r = - (33/250) \<and> hitEV r = - (4259/7775)
     \<and> set (map fst (expectedValues r)) = {STAND, HIT, DOUBLE}
     \<and> recommendedAction r = STAND"
proof -
  have b: "exact = exact \<or> exact = binary64"
    by simp
  from recommendation_maximal [OF b, of "[R10, R6]" King initializeDeck True False]
  obtain r where r: "getStrategyRecommendation exact [R10, R6] King initializeDeck True False = Inr r"
    "set (map fst (expectedValues r)) =
       {STAND, HIT} \<union> (if True then {DOUBLE} else {}) \<union> (if False then {SPLIT} else {})"
    unfolding Let_def by blast
  have k: "set (map fst (expectedValues r)) = {STAND, HIT, DOUBLE}"
    unfolding r(2) by auto
  have v: "r = \<lparr> recommendedAction = STAND,
           expectedValues = [(STAND, Fin (- (33/250))), (HIT, Fin (- (4259/7775))),
                             (DOUBLE, Fin (- (8518/7775)))],
           standEV = - (33/250), hitEV = - (4259/7775) \<rparr>"
    using r(1) unfolding recommendation_ten_six by simp
  have f: "standEV r = - (33/250)" "hitEV r = - (4259/7775)" "recommendedAction r = STAND"
    unfolding v by simp_all
  show ?thesis
    by (rule exI [of _ r]) (intro conjI r(1) f k)
qed

subsection \<open>Drawing a card\<close>

text \<open>
  C2, as stated: drawing a rank whose count is 0 fails with \<open>DepletedRankError\<close>. The
  source returns without an error and without a change instead.
\<close>

theorem addCard_depleted_counterexample:
  "deck depleted_state Ace = 0
   \<and> addCard depleted_state Ace Player = Inr depleted_state
   \<and> addCard depleted_state Ace Player \<noteq> Inl DepletedRankError"
  by (simp add: addCard_def depleted_state_def)

lemma addCard_zero: "deck s r = 0 \<Longrightarrow> addCard s r t = Inr s"
  by (simp add: addCard_def)

lemma addCard_positive:
  assumes "0 < deck s r"
  shows "\<exists>s'. addCard s r t = Inr s' \<and> deck s' r = deck s r - 1
            \<and> (\<forall>r'. r' \<noteq> r \<longrightarrow> deck s' r' = deck s r')"
  using assms by (cases t) (simp_all add: addCard_def Let_def)

text \<open>
  C2, amended. Drawing a rank whose count is 0 returns without an error and leaves the
  state, and so the shoe, unchanged; drawing a rank whose count is positive decrements the
  count of that rank by exactly one and changes the count of no other rank.
\<close>

theorem addCard_draw:
  "(deck s r = 0 \<longrightarrow> addCard s r t = Inr s)
   \<and> (0 < deck s r \<longrightarrow>
        (\<exists>s'. addCard s r t = Inr s' \<and> deck s' r = deck s r - 1
            \<and> (\<forall>r'. r' \<noteq> r \<longrightarrow> deck s' r' = deck s r')))"
  using addCard_zero addCard_positive by blast

theorem addCard_draw_witness:
  "deck depleted_state Ace = 0 \<and> addCard depleted_state Ace Player = Inr depleted_state
   \<and> 0 < deck fresh_state Ace
   \<and> (\<exists>s'. addCard fresh_state Ace Player = Inr s' \<and> deck s' Ace = 23 \<and> deck s' King = 24)"
proof -
  have z: "deck depleted_state Ace = 0"
    by (simp add: depleted_state_def)
  have p: "0 < deck fresh_state Ace" and v: "deck fresh_state Ace = 24" "deck fresh_state King = 24"
    by (simp_all add: fresh_state_def initializeDeck_24)
  from addCard_draw [of depleted_state Ace Player] z
  have a: "addCard depleted_state Ace Player = Inr depleted_state"
    by blast
  from addCard_draw [of fresh_state Ace Player] p
  obtain s' where s': "addCard fresh_state Ace Player = Inr s'" "deck s' Ace = deck fresh_state Ace - 1"
    "\<forall>r'. r' \<noteq> Ace \<longrightarrow> deck s' r' = deck fresh_state r'"
    by blast
  have "deck s' Ace = 23" "deck s' King = 24"
    using s' v by simp_all
  with s'(1) have "\<exists>s'. addCard fresh_state Ace Player = Inr s' \<and> deck s' Ace = 23 \<and> deck s' King = 24"
    by blast
  with z a p show ?thesis
    by blast
qed

subsection \<open>Bet sizing\<close>

lemma binary64_half: "binary64 (5/10) = 1/2"
  by code_simp




























text \<open>
  C1, as stated: the bet sizer fails with \<open>InvalidBankrollError\<close> for a bankroll that is
  zero or negative. The source has no such check: for the bankroll 0 the division by the
  bankroll yields \<^verbatim>\<open>Infinity\<close>, and the call returns.
\<close>

theorem bet_zero_bankroll_counterexample:
  "calculateOptimalBetForNextRound binary64 (Fin 0) (Fin (1/2)) (Fin (1/2)) None
     = Inr \<lparr> kellyFraction = Fin 0, recommendedBet = Fin 1, betPercentage = PosInfinity \<rparr>
   \<and> calculateOptimalBetForNextRound binary64 (Fin 0) (Fin (1/2)) (Fin (1/2)) None
     \<noteq> Inl InvalidBankrollError
   \<and> calculateOptimalBetForNextRound binary64 (Fin (- 100)) (Fin (1/2)) (Fin (1/2)) None
     \<noteq> Inl InvalidBankrollError"
proof -
  have h: "binary64 (1/2) = 1/2"
    by code_simp
  have z: "binary64 0 = 0"
    by (simp add: binary64_def)
  have "calculateOptimalBetForNextRound binary64 (Fin 0) (Fin (1/2)) (Fin (1/2)) None
     = Inr \<lparr> kellyFraction = Fin 0, recommendedBet = Fin 1, betPercentage = PosInfinity \<rparr>"
    by (simp add: calculateOptimalBetForNextRound_def Let_def h z inf_of_sign_def)
  then show ?thesis
    by (simp add: calculateOptimalBetForNextRound_def Let_def)
qed

text \<open>
  C1, amended. The bet sizer never fails: for every bankroll, also a zero or negative one,
  and all other arguments it returns a bet recommendation.
\<close>

theorem bet_never_fails:
  "\<exists>r. calculateOptimalBetForNextRound rnd bankroll p q payout = Inr r"
  by (simp add: calculateOptimalBetForNextRound_def Let_def)

end
